theory Spec2Isabelle
  imports Complex_Main "HOL-Library.Stream"
begin

section \<open>Blink Tac Toe: the game component of \<open>src/components/blink-tac-toe.tsx\<close>\<close>

text \<open>
  The component keeps three pieces of React state: \<open>gameState\<close>, \<open>players\<close> and
  \<open>scores\<close>.  Its event handlers are closures over the state of the current render and
  replace the state as a whole; one \<open>useEffect\<close> re-initialises the players whenever one
  of its three dependencies changed between two renders.  The embedding below passes the
  state explicitly, threads the pseudo-random source through every function that calls
  \<open>Math.random()\<close>, and turns the one exception the code can raise (a property read on
  \<open>undefined\<close>) into a value.
\<close>

subsection \<open>Values\<close>

text \<open>
  A JavaScript string is modelled by the list of its Unicode code points; the only string
  operation the component uses on emojis is equality (\<open>Array.prototype.includes\<close>).
  A board cell is \<open>string | null\<close>; reading an array outside its bounds gives
  \<open>undefined\<close>, so the three kinds of value are kept apart.
\<close>

type_synonym emoji = "nat list"

datatype jsval = Null | Undefined | Str emoji

datatype error = TypeError

text \<open>\<open>xs[i]\<close> as an expression: \<open>undefined\<close> outside the bounds.\<close>

definition js_get :: "jsval list \<Rightarrow> int \<Rightarrow> jsval" where
  "js_get xs i = (if 0 \<le> i \<and> i < int (length xs) then xs ! nat i else Undefined)"

text \<open>
  \<open>xs[i] = v\<close> on a copy of the array: inside the bounds the element is replaced; beyond
  the end the array grows and the cells in between are holes, which read as
  \<open>undefined\<close>.  A negative index creates a property that is not an array element (a
  spread copy of the array drops it), so the elements stay as they are.
\<close>

definition js_set :: "jsval list \<Rightarrow> int \<Rightarrow> jsval \<Rightarrow> jsval list" where
  "js_set xs i v =
     (if i < 0 then xs
      else if i < int (length xs) then xs[nat i := v]
      else xs @ replicate (nat i - length xs) Undefined @ [v])"

text \<open>Truthiness of a cell: \<open>null\<close>, \<open>undefined\<close> and the empty string are falsy.\<close>

fun truthy :: "jsval \<Rightarrow> bool" where
  "truthy (Str s) = (s \<noteq> [])"
| "truthy Null = False"
| "truthy Undefined = False"

definition js_includes :: "jsval list \<Rightarrow> jsval \<Rightarrow> bool" where
  "js_includes xs v = (v \<in> set xs)"

subsection \<open>Numbers\<close>

text \<open>
  A JavaScript number is an IEEE 754 binary64 value.  The finite ones are the reals
  \<open>m * 2 ^ (e - 52)\<close> with \<open>m\<close> an integer of magnitude below \<open>2 ^ 53\<close> and
  \<open>e \<ge> -1022\<close>; an arithmetic operation returns the exact result rounded to the nearest
  such value, ties going to the even significand.  \<open>double_ulp a\<close> is the distance
  between neighbouring values at the magnitude \<open>a\<close>, and \<open>round_double\<close> is the
  rounding.  Overflow to \<open>Infinity\<close> is left out: the only products the component
  forms are below the length of an array.
\<close>

definition round_half_even :: "real \<Rightarrow> int" where
  "round_half_even q =
     (if q - of_int \<lfloor>q\<rfloor> < 1 / 2 then \<lfloor>q\<rfloor>
      else if 1 / 2 < q - of_int \<lfloor>q\<rfloor> then \<lfloor>q\<rfloor> + 1
      else if even \<lfloor>q\<rfloor> then \<lfloor>q\<rfloor> else \<lfloor>q\<rfloor> + 1)"

definition emin :: int where
  "emin = - 1022"

definition double_ulp :: "real \<Rightarrow> real" where
  "double_ulp a = 2 powr (of_int (max \<lfloor>log 2 a\<rfloor> emin) - 52)"

definition round_double :: "real \<Rightarrow> real" where
  "round_double x =
     sgn x * (of_int (round_half_even (\<bar>x\<bar> / double_ulp \<bar>x\<bar>)) * double_ulp \<bar>x\<bar>)"

text \<open>The operator \<open>*\<close> on two numbers.\<close>

definition double_mult :: "real \<Rightarrow> real \<Rightarrow> real" where
  "double_mult a b = round_double (a * b)"

text \<open>
  \<open>Math.random()\<close>: the next number of the source, each a binary64 value (one that
  rounding leaves as it is) in the interval \<open>[0, 1)\<close>.
\<close>

type_synonym rng = "real stream"

definition in_unit :: "real \<Rightarrow> bool" where
  "in_unit r = (0 \<le> r \<and> r < 1 \<and> round_double r = r)"

definition rng_ok :: "rng \<Rightarrow> bool" where
  "rng_ok g = (\<forall>r \<in> sset g. in_unit r)"

subsection \<open>Constants\<close>

definition emojiCategories :: "(string \<times> jsval list) list" where
  "emojiCategories =
    [(''animals'', [Str [0x1F436], Str [0x1F431], Str [0x1F435], Str [0x1F430], Str [0x1F98A],
                   Str [0x1F43B], Str [0x1F43C], Str [0x1F428], Str [0x1F981], Str [0x1F42F]]),
     (''food'',    [Str [0x1F355], Str [0x1F354], Str [0x1F35F], Str [0x1F369], Str [0x1F366],
                   Str [0x1F36D], Str [0x1F36B], Str [0x1F37F], Str [0x1F950], Str [0x1F36A]]),
     (''sports'',  [Str [0x26BD], Str [0x1F3C0], Str [0x1F3C8], Str [0x1F3BE], Str [0x1F3D0],
                   Str [0x1F3C9], Str [0x1F3B1], Str [0x1F3D3], Str [0x26BE], Str [0x1F94E]]),
     (''tech'',    [Str [0x1F4BB], Str [0x1F4F1], Str [0x1F5A5, 0xFE0F], Str [0x2328, 0xFE0F],
                   Str [0x1F5B1, 0xFE0F], Str [0x1F3AE], Str [0x1F3A7], Str [0x1F4F7],
                   Str [0x1F579, 0xFE0F], Str [0x1F50B]]),
     (''space'',   [Str [0x1F680], Str [0x1F6F8], Str [0x1F30C], Str [0x1F320], Str [0x1FA90],
                   Str [0x1F47E], Str [0x1F47D], Str [0x1F311], Str [0x1F315],
                   Str [0x2604, 0xFE0F]])]"

text \<open>
  \<open>emojiCategories[k]\<close>: \<open>None\<close> stands for a key that is not a category, where every
  use in the component (\<open>.includes\<close>, the spread) raises a \<open>TypeError\<close>.
\<close>

definition lookupCategory :: "string \<Rightarrow> jsval list option" where
  "lookupCategory k = map_of emojiCategories k"

definition categoryKeys :: "string list" where
  "categoryKeys = map fst emojiCategories"

text \<open>The placeholder \<open>getRandomEmoji\<close> returns when it has nothing to draw from.\<close>

definition placeholder :: jsval where
  "placeholder = Str [0x2753]"

record Player =
  pid :: int
  category :: string
  emojis :: "jsval list"
  placedEmojis :: "(int \<times> jsval) list"

record GameState =
  board :: "jsval list"
  currentPlayer :: int
  winner :: "int option"
  winningLine :: "int list option"
  gameStarted :: bool
  player1Category :: string
  player2Category :: string

record Scores =
  player1 :: int
  player2 :: int

record App =
  gameState :: GameState
  players :: "Player list"
  scores :: Scores

definition initialGameState :: GameState where
  "initialGameState =
     \<lparr>board = replicate 9 Null, currentPlayer = 1, winner = None, winningLine = None,
      gameStarted = False, player1Category = ''tech'', player2Category = ''space''\<rparr>"

definition winningCombinations :: "int list list" where
  "winningCombinations =
     [[0, 1, 2], [3, 4, 5], [6, 7, 8],
      [0, 3, 6], [1, 4, 7], [2, 5, 8],
      [0, 4, 8], [2, 4, 6]]"

text \<open>The three \<open>useState\<close> initialisers.\<close>

definition initialApp :: App where
  "initialApp =
     \<lparr>gameState = initialGameState,
      players = [\<lparr>pid = 1, category = ''tech'', emojis = [], placedEmojis = []\<rparr>,
                 \<lparr>pid = 2, category = ''space'', emojis = [], placedEmojis = []\<rparr>],
      scores = \<lparr>player1 = 0, player2 = 0\<rparr>\<rparr>"

subsection \<open>The effect that initialises the players\<close>

text \<open>
  The Fisher-Yates loop \<open>for (i = length - 1; i > 0; i--)\<close>; \<open>shuffle i\<close> runs the
  iterations \<open>i, i - 1, \<dots>, 1\<close>.  The destructuring swap reads both elements before it
  writes \<open>xs[i]\<close> and then \<open>xs[j]\<close>.
\<close>

fun shuffle :: "nat \<Rightarrow> jsval list \<Rightarrow> rng \<Rightarrow> jsval list \<times> rng" where
  "shuffle 0 xs g = (xs, g)"
| "shuffle (Suc i) xs g =
     (let j = \<lfloor>double_mult (shd g) (real (Suc i + 1))\<rfloor>;
          xi = js_get xs (int (Suc i));
          xj = js_get xs j
      in shuffle i (js_set (js_set xs (int (Suc i)) xj) j xi) (stl g))"

text \<open>
  The body of the effect's \<open>players.map\<close>, one player after the other, each shuffle
  drawing from the same random source.
\<close>

fun initPlayers :: "GameState \<Rightarrow> Player list \<Rightarrow> rng \<Rightarrow> error + (Player list \<times> rng)" where
  "initPlayers gs [] g = Inr ([], g)"
| "initPlayers gs (player # ps) g =
     (let cat = (if pid player = 1 then player1Category gs else player2Category gs)
      in case lookupCategory cat of
           None \<Rightarrow> Inl TypeError
         | Some categoryEmojis \<Rightarrow>
             (case shuffle (length categoryEmojis - 1) categoryEmojis g of
                (shuffled, g') \<Rightarrow>
                  (case initPlayers gs ps g' of
                     Inl e \<Rightarrow> Inl e
                   | Inr (ps', g'') \<Rightarrow>
                       Inr (player\<lparr>category := cat, emojis := shuffled, placedEmojis := []\<rparr> # ps',
                            g''))))"

definition playersEffect :: "GameState \<Rightarrow> Player list \<Rightarrow> rng \<Rightarrow> error + (Player list \<times> rng)" where
  "playersEffect gs ps g = (if gameStarted gs then initPlayers gs ps g else Inr (ps, g))"

text \<open>The dependency array of the effect.\<close>

definition effectDeps :: "GameState \<Rightarrow> bool \<times> string \<times> string" where
  "effectDeps gs = (gameStarted gs, player1Category gs, player2Category gs)"

subsection \<open>The handlers\<close>

definition getRandomEmoji :: "Player list \<Rightarrow> int \<Rightarrow> rng \<Rightarrow> jsval \<times> rng" where
  "getRandomEmoji ps playerId g =
     (case find (\<lambda>p. pid p = playerId) ps of
        None \<Rightarrow> (placeholder, g)
      | Some player \<Rightarrow>
          if length (emojis player) = 0 then (placeholder, g)
          else (let randomIndex = \<lfloor>double_mult (shd g) (real (length (emojis player)))\<rfloor>
                in (js_get (emojis player) randomIndex, stl g)))"

text \<open>
  The body of the loop of \<open>checkWinner\<close> for one combination: \<open>Some 1\<close> or \<open>Some 2\<close>
  when the loop returns that winner at this combination, \<open>None\<close> when it goes on to the
  next one.  \<open>const [a, b, c] = combo\<close> takes the first three elements; a shorter array
  leaves a variable \<open>undefined\<close>, and \<open>board[undefined]\<close> is falsy.
\<close>

definition checkCombo :: "GameState \<Rightarrow> jsval list \<Rightarrow> int list \<Rightarrow> error + int option" where
  "checkCombo gs brd combo =
     (case combo of
        a # b # c # _ \<Rightarrow>
          if truthy (js_get brd a) \<and> truthy (js_get brd b) \<and> truthy (js_get brd c) then
            (case lookupCategory (player1Category gs) of
               None \<Rightarrow> Inl TypeError
             | Some cat1 \<Rightarrow>
                 (let isPlayer1Win = (js_includes cat1 (js_get brd a) \<and> js_includes cat1 (js_get brd b)
                                      \<and> js_includes cat1 (js_get brd c))
                  in case lookupCategory (player2Category gs) of
                       None \<Rightarrow> Inl TypeError
                     | Some cat2 \<Rightarrow>
                         (let isPlayer2Win = (js_includes cat2 (js_get brd a)
                                              \<and> js_includes cat2 (js_get brd b)
                                              \<and> js_includes cat2 (js_get brd c))
                          in if isPlayer1Win then Inr (Some 1)
                             else if isPlayer2Win then Inr (Some 2)
                             else Inr None)))
          else Inr None
      | _ \<Rightarrow> Inr None)"

fun checkWinner_loop ::
  "GameState \<Rightarrow> jsval list \<Rightarrow> int list list \<Rightarrow> error + (int option \<times> int list option)" where
  "checkWinner_loop gs brd [] = Inr (None, None)"
| "checkWinner_loop gs brd (combo # rest) =
     (case checkCombo gs brd combo of
        Inl e \<Rightarrow> Inl e
      | Inr (Some w) \<Rightarrow> Inr (Some w, Some combo)
      | Inr None \<Rightarrow> checkWinner_loop gs brd rest)"

definition checkWinner :: "GameState \<Rightarrow> jsval list \<Rightarrow> error + (int option \<times> int list option)" where
  "checkWinner gs brd = checkWinner_loop gs brd winningCombinations"

text \<open>
  The \<open>players.map\<close> of \<open>handleCellClick\<close>.  Its callback also writes to \<open>newBoard\<close>,
  so the board is threaded through the traversal.
\<close>

fun updatePlayers ::
  "int \<Rightarrow> int \<Rightarrow> jsval \<Rightarrow> Player list \<Rightarrow> jsval list \<Rightarrow> Player list \<times> jsval list" where
  "updatePlayers currentPlayerId index emoji [] newBoard = ([], newBoard)"
| "updatePlayers currentPlayerId index emoji (player # ps) newBoard =
     (if pid player = currentPlayerId then
        (let newPlacedEmojis = placedEmojis player @ [(index, emoji)]
         in if length newPlacedEmojis > 3 then
              (let oldestPosition = fst (hd newPlacedEmojis)
               in case updatePlayers currentPlayerId index emoji ps
                         (js_set newBoard oldestPosition Null) of
                    (ps', nb) \<Rightarrow> (player\<lparr>placedEmojis := tl newPlacedEmojis\<rparr> # ps', nb))
            else
              (case updatePlayers currentPlayerId index emoji ps newBoard of
                 (ps', nb) \<Rightarrow> (player\<lparr>placedEmojis := newPlacedEmojis\<rparr> # ps', nb)))
      else
        (case updatePlayers currentPlayerId index emoji ps newBoard of
           (ps', nb) \<Rightarrow> (player # ps', nb)))"

text \<open>
  \<open>handleCellClick\<close>.  The three \<open>set\<dots>\<close> calls of one handler are applied together,
  so the handler is one transition of the whole state.  When \<open>checkWinner\<close> throws, the
  handler is abandoned and the result is the error.
\<close>

definition handleCellClick :: "int \<Rightarrow> App \<Rightarrow> rng \<Rightarrow> error + (App \<times> rng)" where
  "handleCellClick index s g =
     (let gs = gameState s in
      if \<not> gameStarted gs \<or> js_get (board gs) index \<noteq> Null \<or> winner gs \<noteq> None then Inr (s, g)
      else
        (let currentPlayerId = currentPlayer gs
         in case getRandomEmoji (players s) currentPlayerId g of
              (emoji, g') \<Rightarrow>
                (case updatePlayers currentPlayerId index emoji (players s)
                        (js_set (board gs) index emoji) of
                   (updatedPlayers, newBoard) \<Rightarrow>
                     (case checkWinner gs newBoard of
                        Inl e \<Rightarrow> Inl e
                      | Inr (w, line) \<Rightarrow>
                          Inr (\<lparr>gameState =
                                 gs\<lparr>board := newBoard,
                                    currentPlayer := (if currentPlayerId = 1 then 2 else 1),
                                    winner := w,
                                    winningLine := line\<rparr>,
                               players = updatedPlayers,
                               scores =
                                 (if w \<noteq> None \<and> w \<noteq> Some 0 then
                                    \<lparr>player1 = (if w = Some 1 then player1 (scores s) + 1
                                                 else player1 (scores s)),
                                     player2 = (if w = Some 2 then player2 (scores s) + 1
                                                 else player2 (scores s))\<rparr>
                                  else scores s)\<rparr>,
                               g')))))"

definition startGame :: "App \<Rightarrow> App" where
  "startGame s =
     s\<lparr>gameState := (gameState s)\<lparr>board := replicate 9 Null, currentPlayer := 1,
                                   winner := None, winningLine := None,
                                   gameStarted := True\<rparr>\<rparr>"

definition resetGame :: "App \<Rightarrow> App" where
  "resetGame s =
     s\<lparr>gameState := initialGameState\<lparr>player1Category := player1Category (gameState s),
                                      player2Category := player2Category (gameState s)\<rparr>,
       players := [\<lparr>pid = 1, category = player1Category (gameState s),
                    emojis = [], placedEmojis = []\<rparr>,
                   \<lparr>pid = 2, category = player2Category (gameState s),
                    emojis = [], placedEmojis = []\<rparr>]\<rparr>"

definition handleCategoryChange :: "int \<Rightarrow> string \<Rightarrow> App \<Rightarrow> App" where
  "handleCategoryChange playerId cat s =
     (if playerId = 1 then s\<lparr>gameState := (gameState s)\<lparr>player1Category := cat\<rparr>\<rparr>
      else s\<lparr>gameState := (gameState s)\<lparr>player2Category := cat\<rparr>\<rparr>)"

subsection \<open>The component as a transition system\<close>

text \<open>
  The controls the component renders, each with the handler it calls.  A control that is not
  rendered, or is rendered disabled, cannot fire: the category buttons and the start button
  belong to the setup screen, the cells and the reset button to the game screen, and
  ``Play Again'' appears once there is a winner.  Player 2's button for the category that
  player 1 holds is disabled.
\<close>

datatype event =
    CategoryButton int string
  | StartButton
  | PlayAgainButton
  | Cell int
  | ResetButton

fun enabled :: "App \<Rightarrow> event \<Rightarrow> bool" where
  "enabled s (CategoryButton p cat) =
     (\<not> gameStarted (gameState s) \<and> cat \<in> set categoryKeys \<and>
      (p = 1 \<or> (p = 2 \<and> player1Category (gameState s) \<noteq> cat)))"
| "enabled s StartButton = (\<not> gameStarted (gameState s))"
| "enabled s PlayAgainButton =
     (gameStarted (gameState s) \<and> winner (gameState s) \<noteq> None \<and> winner (gameState s) \<noteq> Some 0)"
| "enabled s (Cell i) = (gameStarted (gameState s) \<and> 0 \<le> i \<and> i < 9)"
| "enabled s ResetButton = gameStarted (gameState s)"

fun handler :: "event \<Rightarrow> App \<Rightarrow> rng \<Rightarrow> error + (App \<times> rng)" where
  "handler (CategoryButton p cat) s g = Inr (handleCategoryChange p cat s, g)"
| "handler StartButton s g = Inr (startGame s, g)"
| "handler PlayAgainButton s g = Inr (startGame s, g)"
| "handler (Cell i) s g = handleCellClick i s g"
| "handler ResetButton s g = Inr (resetGame s, g)"

text \<open>
  After the render that follows a handler, React runs the effect when one of its
  dependencies differs from the previous render.  (It also runs after the first render,
  where no game is started and it does nothing.)  The players it maps over are those of
  that render, after the handler's updates.
\<close>

definition afterRender :: "App \<Rightarrow> App \<Rightarrow> rng \<Rightarrow> error + (App \<times> rng)" where
  "afterRender old new g =
     (if effectDeps (gameState new) \<noteq> effectDeps (gameState old) then
        (case playersEffect (gameState new) (players new) g of
           Inl e \<Rightarrow> Inl e
         | Inr (ps, g') \<Rightarrow> Inr (new\<lparr>players := ps\<rparr>, g'))
      else Inr (new, g))"

definition dispatch :: "event \<Rightarrow> App \<Rightarrow> rng \<Rightarrow> error + (App \<times> rng)" where
  "dispatch ev s g =
     (if enabled s ev then
        (case handler ev s g of
           Inl e \<Rightarrow> Inl e
         | Inr (s', g') \<Rightarrow> afterRender s s' g')
      else Inr (s, g))"

text \<open>A sequence of events from a state; an exception ends it.\<close>

fun run :: "event list \<Rightarrow> App \<Rightarrow> rng \<Rightarrow> error + (App \<times> rng)" where
  "run [] s g = Inr (s, g)"
| "run (ev # evs) s g =
     (case dispatch ev s g of
        Inl e \<Rightarrow> Inl e
      | Inr (s', g') \<Rightarrow> run evs s' g')"

section \<open>Notions used in the statements\<close>

text \<open>
  A combination is all \<open>cat\<close> on a board when its cells are occupied by symbols of the
  list \<open>cat\<close>.
\<close>

definition all_in :: "jsval list \<Rightarrow> jsval list \<Rightarrow> int list \<Rightarrow> bool" where
  "all_in cat brd combo = (\<forall>i \<in> set combo. js_get brd i \<noteq> Null \<and> js_includes cat (js_get brd i))"

text \<open>
  What the callback of \<open>handleCellClick\<close> does for the player who moves: the new
  placement joins the queue, and when that makes four the oldest one leaves the queue and
  its cell is cleared.
\<close>

definition enqueue :: "(int \<times> jsval) list \<Rightarrow> int \<Rightarrow> jsval \<Rightarrow> (int \<times> jsval) list" where
  "enqueue q index emoji =
     (if length (q @ [(index, emoji)]) > 3 then tl (q @ [(index, emoji)]) else q @ [(index, emoji)])"

definition evict :: "(int \<times> jsval) list \<Rightarrow> int \<Rightarrow> jsval \<Rightarrow> jsval list \<Rightarrow> jsval list" where
  "evict q index emoji nb =
     (if length (q @ [(index, emoji)]) > 3 then js_set nb (fst (hd (q @ [(index, emoji)]))) Null
      else nb)"

definition positions :: "(int \<times> jsval) list \<Rightarrow> int set" where
  "positions q = fst ` set q"

text \<open>
  \<open>tracked P brd S\<close>: every cell of the board whose content satisfies \<open>P\<close> has its index
  in \<open>S\<close>.
\<close>

definition tracked :: "(jsval \<Rightarrow> bool) \<Rightarrow> jsval list \<Rightarrow> int set \<Rightarrow> bool" where
  "tracked P brd S = (\<forall>k. 0 \<le> k \<and> k < int (length brd) \<and> P (js_get brd k) \<longrightarrow> k \<in> S)"

text \<open>
  The invariant of the component.  There are two players, with ids 1 and 2; both category
  names are keys of the table; the board has nine cells; each queue holds at most three
  placements, all at indices of the board; every occupied cell is the position of a queued
  placement; while a game is running each player's emoji list has the symbols of the
  player's category, and on the setup screen the board is empty; and when the two
  categories differ, a cell with a symbol of a player's category is a position in that
  player's queue.
\<close>

definition inv_parts :: "GameState \<Rightarrow> Player \<Rightarrow> Player \<Rightarrow> jsval list \<Rightarrow> jsval list \<Rightarrow> bool" where
  "inv_parts gs p1 p2 cat1 cat2 =
     (pid p1 = 1 \<and> pid p2 = 2 \<and>
      lookupCategory (player1Category gs) = Some cat1 \<and>
      lookupCategory (player2Category gs) = Some cat2 \<and>
      length (board gs) = 9 \<and>
      (currentPlayer gs = 1 \<or> currentPlayer gs = 2) \<and>
      length (placedEmojis p1) \<le> 3 \<and> length (placedEmojis p2) \<le> 3 \<and>
      (\<forall>k \<in> positions (placedEmojis p1). 0 \<le> k \<and> k < 9) \<and>
      (\<forall>k \<in> positions (placedEmojis p2). 0 \<le> k \<and> k < 9) \<and>
      tracked (\<lambda>v. v \<noteq> Null) (board gs)
        (positions (placedEmojis p1) \<union> positions (placedEmojis p2)) \<and>
      (gameStarted gs \<longrightarrow> set (emojis p1) = set cat1 \<and> set (emojis p2) = set cat2) \<and>
      (\<not> gameStarted gs \<longrightarrow> set (board gs) \<subseteq> {Null}) \<and>
      (player1Category gs \<noteq> player2Category gs \<longrightarrow>
         tracked (\<lambda>v. v \<in> set cat1) (board gs) (positions (placedEmojis p1)) \<and>
         tracked (\<lambda>v. v \<in> set cat2) (board gs) (positions (placedEmojis p2))))"

definition app_inv :: "App \<Rightarrow> bool" where
  "app_inv s = (\<exists>p1 p2 cat1 cat2. players s = [p1, p2] \<and> inv_parts (gameState s) p1 p2 cat1 cat2)"

text \<open>
  The number of board cells that hold a symbol of the category \<open>k\<close>: the cells of the
  player bound to \<open>k\<close>, when the other player is bound to another category.
\<close>

definition cellsOfCategory :: "GameState \<Rightarrow> string \<Rightarrow> nat" where
  "cellsOfCategory gs k =
     (case lookupCategory k of
        None \<Rightarrow> 0
      | Some cat \<Rightarrow> length (filter (js_includes cat) (board gs)))"

subsection \<open>A game played through\<close>

text \<open>
  The states of one game, with player 1 on \<open>tech\<close> and player 2 on \<open>space\<close> and a random
  source that always returns 0.  With that source the shuffle rotates each list by one
  place and every draw is the first element of the shuffled list.
\<close>

definition phone :: jsval where
  "phone = Str [0x1F4F1]"

definition saucer :: jsval where
  "saucer = Str [0x1F6F8]"

definition demoPlayers :: "(int \<times> jsval) list \<Rightarrow> (int \<times> jsval) list \<Rightarrow> Player list" where
  "demoPlayers q1 q2 =
     [\<lparr>pid = 1, category = ''tech'',
       emojis = [Str [0x1F4F1], Str [0x1F5A5, 0xFE0F], Str [0x2328, 0xFE0F],
                 Str [0x1F5B1, 0xFE0F], Str [0x1F3AE], Str [0x1F3A7], Str [0x1F4F7],
                 Str [0x1F579, 0xFE0F], Str [0x1F50B], Str [0x1F4BB]],
       placedEmojis = q1\<rparr>,
      \<lparr>pid = 2, category = ''space'',
       emojis = [Str [0x1F6F8], Str [0x1F30C], Str [0x1F320], Str [0x1FA90],
                 Str [0x1F47E], Str [0x1F47D], Str [0x1F311], Str [0x1F315],
                 Str [0x2604, 0xFE0F], Str [0x1F680]],
       placedEmojis = q2\<rparr>]"

definition demoGame :: "jsval list \<Rightarrow> int \<Rightarrow> int option \<Rightarrow> int list option \<Rightarrow> GameState" where
  "demoGame b c w l =
     \<lparr>board = b, currentPlayer = c, winner = w, winningLine = l,
      gameStarted = True, player1Category = ''tech'', player2Category = ''space''\<rparr>"

text \<open>After the start button.\<close>

definition started :: App where
  "started =
     \<lparr>gameState = demoGame [Null, Null, Null, Null, Null, Null, Null, Null, Null] 1 None None,
      players = demoPlayers [] [],
      scores = \<lparr>player1 = 0, player2 = 0\<rparr>\<rparr>"

text \<open>After the clicks on 0, 3, 1 and 4: player 1 holds 0 and 1, player 2 holds 3 and 4.\<close>

definition midGame :: App where
  "midGame =
     \<lparr>gameState = demoGame [phone, phone, Null, saucer, saucer, Null, Null, Null, Null] 1 None None,
      players = demoPlayers [(0, phone), (1, phone)] [(3, saucer), (4, saucer)],
      scores = \<lparr>player1 = 0, player2 = 0\<rparr>\<rparr>"

text \<open>After player 1's click on 2, which completes the top row.\<close>

definition wonGame :: App where
  "wonGame =
     \<lparr>gameState = demoGame [phone, phone, phone, saucer, saucer, Null, Null, Null, Null] 2
                    (Some 1) (Some [0, 1, 2]),
      players = demoPlayers [(0, phone), (1, phone), (2, phone)] [(3, saucer), (4, saucer)],
      scores = \<lparr>player1 = 1, player2 = 0\<rparr>\<rparr>"

text \<open>After ``Play Again''.\<close>

definition rematch :: App where
  "rematch =
     \<lparr>gameState = demoGame [Null, Null, Null, Null, Null, Null, Null, Null, Null] 1 None None,
      players = demoPlayers [(0, phone), (1, phone), (2, phone)] [(3, saucer), (4, saucer)],
      scores = \<lparr>player1 = 1, player2 = 0\<rparr>\<rparr>"

text \<open>After player 1's click on 0 in the new game.\<close>

definition rematchMove :: App where
  "rematchMove =
     \<lparr>gameState = demoGame [Null, Null, Null, Null, Null, Null, Null, Null, Null] 2 None None,
      players = demoPlayers [(1, phone), (2, phone), (0, phone)] [(3, saucer), (4, saucer)],
      scores = \<lparr>player1 = 1, player2 = 0\<rparr>\<rparr>"

text \<open>Both players on \<open>space\<close>: player 1 pressed player 2's category on the setup screen.\<close>

definition sameSetup :: App where
  "sameSetup = handleCategoryChange 1 ''space'' initialApp"

text \<open>
  The number that the literal \<open>0.7\<close> denotes, a random number for which the rounding of
  the product matters: ten times this number is just below 7, and the product as a number
  is 7.  In the shuffled \<open>tech\<close> list the element at index 7 is \<open>joystick\<close>.
\<close>

definition seven_tenths :: real where
  "seven_tenths = 6305039478318694 / 2 ^ 53"

definition joystick :: jsval where
  "joystick = Str [0x1F579, 0xFE0F]"


definition crossBoard :: "jsval list" where
  "crossBoard =
     [phone, Null, Null,
      phone, phone, Null,
      phone, Null, phone]"

section \<open>Properties\<close>

subsection \<open>Arrays and random indices\<close>

lemma round_half_even_le: "of_int (round_half_even q) \<le> q + 1 / 2"
  unfolding round_half_even_def by (auto; linarith)

lemma round_half_even_ge: "q - 1 / 2 \<le> of_int (round_half_even q)"
  unfolding round_half_even_def by (auto; linarith)

lemma round_half_even_nonneg: "0 \<le> q \<Longrightarrow> 0 \<le> round_half_even q"
  unfolding round_half_even_def by auto

lemma round_half_even_of_int [simp]: "round_half_even (of_int m) = m"
  unfolding round_half_even_def by simp

lemma double_ulp_pos: "0 < double_ulp a"
  by (simp add: double_ulp_def)

lemma round_double_0 [simp]: "round_double 0 = 0"
  by (simp add: round_double_def)

lemma round_double_nonneg: "0 \<le> x \<Longrightarrow> 0 \<le> round_double x"
  unfolding round_double_def
  by (intro mult_nonneg_nonneg) (simp_all add: round_half_even_nonneg double_ulp_pos less_imp_le sgn_real_def)

lemma round_double_upper:
  assumes "0 \<le> x"
  shows "round_double x \<le> x + double_ulp x / 2"
proof (cases "x = 0")
  case True
  then show ?thesis using double_ulp_pos[of 0] by simp
next
  case False
  with assms have x: "0 < x" by simp
  let ?u = "double_ulp x"
  have u: "0 < ?u" by (rule double_ulp_pos)
  have "of_int (round_half_even (x / ?u)) \<le> x / ?u + 1 / 2" by (rule round_half_even_le)
  then have "of_int (round_half_even (x / ?u)) * ?u \<le> (x / ?u + 1 / 2) * ?u"
    using u by (simp add: mult_right_mono)
  also have "\<dots> = x + ?u / 2" using u by (simp add: field_simps)
  finally show ?thesis using x by (simp add: round_double_def)
qed

lemma double_ulp_normal:
  assumes "0 < a" "emin \<le> \<lfloor>log 2 a\<rfloor>"
  shows "double_ulp a \<le> a * 2 powr (- 52)"
proof -
  have "2 powr (of_int \<lfloor>log 2 a\<rfloor>) \<le> a"
    using floor_log_eq_powr_iff[of a 2 "\<lfloor>log 2 a\<rfloor>"] assms(1) by simp
  moreover have "double_ulp a = 2 powr (of_int \<lfloor>log 2 a\<rfloor>) * 2 powr (- 52)"
    using assms(2) by (simp add: double_ulp_def max_def powr_add[symmetric])
  ultimately show ?thesis by (simp add: mult_right_mono)
qed

lemma double_ulp_subnormal:
  assumes "0 < a" "\<lfloor>log 2 a\<rfloor> < emin"
  shows "double_ulp a = 2 powr (of_int emin - 52)" "a < 2 powr (of_int emin)"
proof -
  show "double_ulp a = 2 powr (of_int emin - 52)"
    using assms(2) by (simp add: double_ulp_def max_def)
  have "a < 2 powr (of_int (\<lfloor>log 2 a\<rfloor> + 1))"
    using floor_log_eq_powr_iff[of a 2 "\<lfloor>log 2 a\<rfloor>"] assms(1) by simp
  also have "\<dots> \<le> 2 powr (of_int emin)"
    using assms(2) by (intro powr_mono) simp_all
  finally show "a < 2 powr (of_int emin)" .
qed


lemma emin_le: "emin \<le> - 1"
  by (simp add: emin_def)

lemma in_unit_le:
  assumes "in_unit r"
  shows "r \<le> 1 - 2 powr (- 53)"
proof (cases "r < 1 / 2")
  case True
  have "(2::real) powr (- 53) \<le> 2 powr (- 1)" by (intro powr_mono) simp_all
  then show ?thesis using True by simp
next
  case False
  from assms have r: "1 / 2 \<le> r" "r < 1" and rep: "round_double r = r"
    using False by (simp_all add: in_unit_def)
  have fl: "\<lfloor>log 2 r\<rfloor> = - 1"
    using floor_log_eq_powr_iff[of r 2 "- 1"] r by simp
  have u: "double_ulp r = 2 powr (- 53)"
    using emin_le by (simp add: double_ulp_def fl max_def)
  define m where "m = round_half_even (r / double_ulp r)"
  have "round_double r = of_int m * 2 powr (- 53)"
    using r by (simp add: round_double_def m_def u)
  then have rm: "r = of_int m * 2 powr (- 53)"
    using rep by simp
  have p: "(2::real) powr (- 53) = 1 / 2 ^ 53"
    by (simp add: powr_neg_numeral)
  have "real_of_int m / 2 ^ 53 < 1" using r rm p by simp
  then have "m < 2 ^ 53" by simp
  then have "m \<le> 2 ^ 53 - 1" by simp
  then have "real_of_int m \<le> of_int (2 ^ 53 - 1)" by (simp only: of_int_le_iff)
  then have "real_of_int m / 2 ^ 53 \<le> (2 ^ 53 - 1) / 2 ^ 53"
    by (simp add: divide_right_mono)
  then show ?thesis using rm p by simp
qed

lemma double_mult_less:
  assumes r: "in_unit r" and n: "0 < n"
  shows "double_mult r (real n) < real n"
proof -
  define x where "x = r * real n"
  define e where "e = (2::real) powr (- 53)"
  have e: "0 < e" "e < 1" "2 powr (- 52) = 2 * e"
    unfolding e_def
    using powr_less_mono[of "- 53" 0 "2::real"] powr_add[of "2::real" 1 "- 53"] by simp_all
  have r0: "0 \<le> r" and r1: "r \<le> 1 - e"
    using r in_unit_le[OF r] by (simp_all add: in_unit_def e_def)
  have x0: "0 \<le> x" using r0 by (simp add: x_def)
  have xn: "x \<le> (1 - e) * real n"
    unfolding x_def using r1 by (intro mult_right_mono) simp_all
  have "round_double x < real n"
  proof (cases "x = 0")
    case True
    then show ?thesis using n by simp
  next
    case False
    then have xp: "0 < x" using x0 by simp
    show ?thesis
    proof (cases "emin \<le> \<lfloor>log 2 x\<rfloor>")
      case True
      have "round_double x \<le> x + double_ulp x / 2" by (rule round_double_upper[OF x0])
      also have "\<dots> \<le> x + x * (2 * e) / 2"
        using double_ulp_normal[OF xp True] e(3) by simp
      also have "\<dots> = x * (1 + e)" by (simp add: algebra_simps)
      also have "\<dots> \<le> ((1 - e) * real n) * (1 + e)"
        using xn e(1) by (intro mult_right_mono) simp_all
      also have "\<dots> = real n - e * e * real n" by (simp add: algebra_simps)
      also have "\<dots> < real n" using e(1) n by simp
      finally show ?thesis .
    next
      case False
      then have sub: "\<lfloor>log 2 x\<rfloor> < emin" by simp
      have a: "(2::real) powr (of_int emin) \<le> 2 powr (- 1)"
        using emin_le by (intro powr_mono) simp_all
      have b: "(2::real) powr (of_int emin - 52) \<le> 2 powr (- 1)"
        using emin_le by (intro powr_mono) simp_all
      have "round_double x \<le> x + double_ulp x / 2" by (rule round_double_upper[OF x0])
      also have "\<dots> < 2 powr (- 1) + 2 powr (- 1) / 2"
        using double_ulp_subnormal[OF xp sub] a b by simp
      also have "\<dots> \<le> real n" using n by simp
      finally show ?thesis .
    qed
  qed
  then show ?thesis by (simp add: double_mult_def x_def)
qed

lemma floor_unit:
  assumes "in_unit r" "0 < n"
  shows "0 \<le> \<lfloor>double_mult r (real n)\<rfloor> \<and> \<lfloor>double_mult r (real n)\<rfloor> < int n"
proof -
  have "0 \<le> r * real n" using assms by (simp add: in_unit_def)
  then have "0 \<le> double_mult r (real n)"
    unfolding double_mult_def by (rule round_double_nonneg)
  moreover have "double_mult r (real n) < real n" by (rule double_mult_less[OF assms])
  ultimately show ?thesis by (simp add: floor_less_iff)
qed

lemma in_unit_0 [simp]: "in_unit 0"
  by (simp add: in_unit_def)

lemma double_mult_0 [simp]: "double_mult 0 x = 0"
  by (simp add: double_mult_def)

text \<open>The rounding evaluated, once the binary exponent of the argument is known.\<close>

lemma round_double_eval:
  assumes "2 powr (of_int e) \<le> x" "x < 2 powr (of_int e + 1)" "emin \<le> e"
  shows "round_double x =
           of_int (round_half_even (x / 2 powr (of_int e - 52))) * 2 powr (of_int e - 52)"
proof -
  have x: "0 < x" using assms(1) by (rule less_le_trans[rotated]) simp
  have "\<lfloor>log 2 x\<rfloor> = e"
    using floor_log_eq_powr_iff[of x 2 e] x assms(1,2) by simp
  then have "double_ulp x = 2 powr (of_int e - 52)"
    using assms(3) by (simp add: double_ulp_def max_def)
  then show ?thesis using x by (simp add: round_double_def)
qed

lemma in_unit_seven_tenths: "in_unit seven_tenths"
proof -
  have "round_double seven_tenths = seven_tenths"
    using round_double_eval[of "- 1" seven_tenths]
    by (simp add: seven_tenths_def emin_def powr_neg_numeral round_half_even_def)
  then show ?thesis by (simp add: in_unit_def seven_tenths_def)
qed

text \<open>
  The exact product \<open>7 - 2 ^ -51\<close> lies half-way between the neighbouring numbers
  \<open>7 - 2 ^ -50\<close> and \<open>7\<close>; the tie goes to the even significand, which is that of 7.
\<close>

lemma double_mult_seven_tenths: "double_mult seven_tenths 10 = 7"
  using round_double_eval[of 2 "seven_tenths * 10"]
  by (simp add: double_mult_def seven_tenths_def emin_def powr_neg_numeral round_half_even_def)

lemma exact_seven_tenths: "\<lfloor>seven_tenths * 10\<rfloor> = 6"
  by (simp add: seven_tenths_def)

lemma js_get_mem: "0 \<le> i \<Longrightarrow> i < int (length xs) \<Longrightarrow> js_get xs i \<in> set xs"
  by (simp add: js_get_def)

lemma js_get_Null_range: "js_get xs i = Null \<Longrightarrow> 0 \<le> i \<and> i < int (length xs)"
  by (simp add: js_get_def split: if_splits)

lemma length_js_set: "0 \<le> i \<Longrightarrow> i < int (length xs) \<Longrightarrow> length (js_set xs i v) = length xs"
  by (simp add: js_set_def)

lemma js_get_js_set:
  "0 \<le> i \<Longrightarrow> i < int (length xs) \<Longrightarrow> js_get (js_set xs i v) k = (if k = i then v else js_get xs k)"
  by (auto simp: js_get_def js_set_def nth_list_update)

lemma js_set_swap_set:
  assumes "0 \<le> i" "i < int (length xs)" "0 \<le> j" "j < int (length xs)"
  shows "set (js_set (js_set xs i (js_get xs j)) j (js_get xs i)) = set xs"
    and "length (js_set (js_set xs i (js_get xs j)) j (js_get xs i)) = length xs"
proof -
  have "js_set (js_set xs i (js_get xs j)) j (js_get xs i) = xs[nat i := xs ! nat j, nat j := xs ! nat i]"
    using assms by (simp add: js_set_def js_get_def)
  moreover have "set (xs[nat i := xs ! nat j, nat j := xs ! nat i]) = set xs"
    using assms by (intro set_swap) auto
  ultimately show "set (js_set (js_set xs i (js_get xs j)) j (js_get xs i)) = set xs"
    and "length (js_set (js_set xs i (js_get xs j)) j (js_get xs i)) = length xs"
    by simp_all
qed

lemma rng_ok_shd: "rng_ok g \<Longrightarrow> in_unit (shd g)"
  by (simp add: rng_ok_def shd_sset)

lemma rng_ok_stl: "rng_ok g \<Longrightarrow> rng_ok (stl g)"
  by (auto simp: rng_ok_def dest: stl_sset)

lemma rng_ok_sconst: "rng_ok (sconst 0)"
  by (simp add: rng_ok_def in_unit_0)

lemma shuffle_perm:
  "rng_ok g \<Longrightarrow> i < length xs \<Longrightarrow>
     set (fst (shuffle i xs g)) = set xs \<and> length (fst (shuffle i xs g)) = length xs
     \<and> rng_ok (snd (shuffle i xs g))"
proof (induction i arbitrary: xs g)
  case 0
  then show ?case by simp
next
  case (Suc i)
  let ?j = "\<lfloor>double_mult (shd g) (real (Suc i + 1))\<rfloor>"
  let ?ys = "js_set (js_set xs (int (Suc i)) (js_get xs ?j)) ?j (js_get xs (int (Suc i)))"
  from floor_unit[OF rng_ok_shd[OF Suc.prems(1)], of "Suc i + 1"]
  have j: "0 \<le> ?j" "?j < int (Suc i + 1)" by simp_all
  with Suc.prems(2) have jl: "?j < int (length xs)" by linarith
  have il: "0 \<le> int (Suc i)" "int (Suc i) < int (length xs)" using Suc.prems(2) by simp_all
  from js_set_swap_set[OF il j(1) jl]
  have ys: "set ?ys = set xs" "length ?ys = length xs" by simp_all
  have "i < length ?ys" using ys(2) Suc.prems(2) by simp
  from Suc.IH[OF rng_ok_stl[OF Suc.prems(1)] this] ys
  show ?case by (simp add: Let_def)
qed

subsection \<open>The category table\<close>

lemma lookupCategory_mem: "lookupCategory k = Some cat \<Longrightarrow> (k, cat) \<in> set emojiCategories"
  unfolding lookupCategory_def by (rule map_of_SomeD)

lemma lookupCategory_key:
  assumes "k \<in> set categoryKeys"
  shows "\<exists>cat. lookupCategory k = Some cat"
proof -
  from assms have "k \<in> fst ` set emojiCategories" by (simp add: categoryKeys_def)
  then have "map_of emojiCategories k \<noteq> None" by (simp only: map_of_eq_None_iff not_not)
  then show ?thesis unfolding lookupCategory_def by blast
qed

lemma lookupCategory_keyI:
  assumes "lookupCategory k = Some cat"
  shows "k \<in> set categoryKeys"
proof -
  from assms have "(k, cat) \<in> set emojiCategories" by (rule lookupCategory_mem)
  then have "fst (k, cat) \<in> fst ` set emojiCategories" by (rule imageI)
  then show ?thesis by (simp add: categoryKeys_def)
qed

lemma categories_table:
  "\<forall>(k1, c1) \<in> set emojiCategories.
     c1 \<noteq> [] \<and> placeholder \<notin> set c1 \<and> (\<forall>v \<in> set c1. truthy v) \<and>
     (\<forall>(k2, c2) \<in> set emojiCategories. k1 \<noteq> k2 \<longrightarrow> set c1 \<inter> set c2 = {})"
  by (simp add: emojiCategories_def placeholder_def)

lemma category_nonempty: "lookupCategory k = Some cat \<Longrightarrow> cat \<noteq> []"
  using categories_table by (auto dest!: lookupCategory_mem)

lemma placeholder_in_no_category: "lookupCategory k = Some cat \<Longrightarrow> placeholder \<notin> set cat"
  using categories_table by (auto dest!: lookupCategory_mem)

lemma category_truthy: "lookupCategory k = Some cat \<Longrightarrow> v \<in> set cat \<Longrightarrow> truthy v"
  using categories_table by (auto dest!: lookupCategory_mem)

lemma categories_disjoint:
  "lookupCategory k1 = Some c1 \<Longrightarrow> lookupCategory k2 = Some c2 \<Longrightarrow> k1 \<noteq> k2 \<Longrightarrow>
   v \<in> set c1 \<Longrightarrow> v \<notin> set c2"
  using categories_table by (fastforce dest!: lookupCategory_mem)

subsection \<open>Win evaluation\<close>

lemma checkCombo_short: "length combo < 3 \<Longrightarrow> checkCombo gs brd combo = Inr None"
  by (auto simp: checkCombo_def split: list.splits)

lemma checkCombo_three:
  assumes c1: "lookupCategory (player1Category gs) = Some cat1"
      and c2: "lookupCategory (player2Category gs) = Some cat2"
  shows "checkCombo gs brd (a # b # c # rest) =
           Inr (if all_in cat1 brd [a, b, c] then Some 1
                else if all_in cat2 brd [a, b, c] then Some 2 else None)"
proof (cases "truthy (js_get brd a) \<and> truthy (js_get brd b) \<and> truthy (js_get brd c)")
  case True
  then have nn: "js_get brd a \<noteq> Null" "js_get brd b \<noteq> Null" "js_get brd c \<noteq> Null"
    by auto
  show ?thesis
    using True nn by (simp add: checkCombo_def c1 c2 all_in_def)
next
  case False
  then have "\<not> all_in cat1 brd [a, b, c]" "\<not> all_in cat2 brd [a, b, c]"
    using category_truthy[OF c1] category_truthy[OF c2]
    by (auto simp: all_in_def js_includes_def)
  moreover have "checkCombo gs brd (a # b # c # rest) = Inr None"
    unfolding checkCombo_def by (simp only: list.case if_not_P[OF False])
  ultimately show ?thesis by simp
qed

lemma checkCombo_total:
  assumes "lookupCategory (player1Category gs) = Some cat1"
      and "lookupCategory (player2Category gs) = Some cat2"
  shows "\<exists>r. checkCombo gs brd combo = Inr r"
proof (cases "length combo < 3")
  case True
  then show ?thesis by (simp add: checkCombo_short)
next
  case False
  then obtain a t1 where 1: "combo = a # t1" by (cases combo) auto
  with False obtain b t2 where 2: "t1 = b # t2" by (cases t1) auto
  with 1 False obtain c rest where 3: "t2 = c # rest" by (cases t2) auto
  from 1 2 3 have "combo = a # b # c # rest" by simp
  then show ?thesis using checkCombo_three[OF assms] by simp
qed

lemma checkWinner_loop_total:
  assumes "lookupCategory (player1Category gs) = Some cat1"
      and "lookupCategory (player2Category gs) = Some cat2"
  shows "\<exists>w l. checkWinner_loop gs brd combos = Inr (w, l)"
proof (induction combos)
  case Nil
  show ?case by simp
next
  case (Cons combo rest)
  from checkCombo_total[OF assms] obtain r where r: "checkCombo gs brd combo = Inr r" by blast
  show ?case using r Cons.IH by (cases r) simp_all
qed

lemma checkWinner_loop_first:
  "checkWinner_loop gs brd combos = Inr (Some w, Some combo) \<longleftrightarrow>
     (\<exists>pre post. combos = pre @ combo # post \<and> (\<forall>c \<in> set pre. checkCombo gs brd c = Inr None)
                 \<and> checkCombo gs brd combo = Inr (Some w))"
proof (induction combos)
  case Nil
  show ?case by simp
next
  case (Cons c0 rest)
  show ?case
  proof (cases "checkCombo gs brd c0")
    case (Inl e)
    have "\<not> (\<exists>pre post. c0 # rest = pre @ combo # post
               \<and> (\<forall>c \<in> set pre. checkCombo gs brd c = Inr None)
               \<and> checkCombo gs brd combo = Inr (Some w))"
    proof
      assume "\<exists>pre post. c0 # rest = pre @ combo # post
               \<and> (\<forall>c \<in> set pre. checkCombo gs brd c = Inr None)
               \<and> checkCombo gs brd combo = Inr (Some w)"
      then obtain pre post where p: "c0 # rest = pre @ combo # post"
        "\<forall>c \<in> set pre. checkCombo gs brd c = Inr None" "checkCombo gs brd combo = Inr (Some w)"
        by blast
      show False using p Inl by (cases pre) auto
    qed
    with Inl show ?thesis by simp
  next
    case (Inr r)
    show ?thesis
    proof (cases r)
      case None
      have "(\<exists>pre post. c0 # rest = pre @ combo # post
               \<and> (\<forall>c \<in> set pre. checkCombo gs brd c = Inr None)
               \<and> checkCombo gs brd combo = Inr (Some w))
           \<longleftrightarrow> (\<exists>pre post. rest = pre @ combo # post
               \<and> (\<forall>c \<in> set pre. checkCombo gs brd c = Inr None)
               \<and> checkCombo gs brd combo = Inr (Some w))" (is "?L \<longleftrightarrow> ?R")
      proof
        assume ?L
        then obtain pre post where p: "c0 # rest = pre @ combo # post"
          "\<forall>c \<in> set pre. checkCombo gs brd c = Inr None" "checkCombo gs brd combo = Inr (Some w)"
          by blast
        from p(1,3) Inr None obtain pre' where "pre = c0 # pre'" by (cases pre) auto
        with p show ?R by auto
      next
        assume ?R
        then obtain pre post where p: "rest = pre @ combo # post"
          "\<forall>c \<in> set pre. checkCombo gs brd c = Inr None" "checkCombo gs brd combo = Inr (Some w)"
          by blast
        have "c0 # rest = (c0 # pre) @ combo # post" using p(1) by simp
        moreover have "\<forall>c \<in> set (c0 # pre). checkCombo gs brd c = Inr None"
          using p(2) Inr None by simp
        ultimately show ?L using p(3) by blast
      qed
      with Inr None Cons.IH show ?thesis by simp
    next
      case (Some w0)
      have "(\<exists>pre post. c0 # rest = pre @ combo # post
               \<and> (\<forall>c \<in> set pre. checkCombo gs brd c = Inr None)
               \<and> checkCombo gs brd combo = Inr (Some w)) \<longleftrightarrow> (w0 = w \<and> c0 = combo)"
        (is "?L \<longleftrightarrow> ?R")
      proof
        assume ?L
        then obtain pre post where p: "c0 # rest = pre @ combo # post"
          "\<forall>c \<in> set pre. checkCombo gs brd c = Inr None" "checkCombo gs brd combo = Inr (Some w)"
          by blast
        show ?R using p Inr Some by (cases pre) auto
      next
        assume ?R
        then have "c0 # rest = [] @ combo # rest" "checkCombo gs brd combo = Inr (Some w)"
          using Inr Some by simp_all
        then show ?L by (metis empty_iff list.set(1))
      qed
      with Inr Some show ?thesis by auto
    qed
  qed
qed

lemma checkWinner_loop_shape:
  "checkWinner_loop gs brd combos = Inr (w, l) \<Longrightarrow>
     (w = None \<and> l = None) \<or> (\<exists>w' c. w = Some w' \<and> l = Some c \<and> c \<in> set combos
                                    \<and> checkCombo gs brd c = Inr (Some w'))"
proof (induction combos)
  case Nil
  then show ?case by simp
next
  case (Cons c0 rest)
  then show ?case
    by (cases "checkCombo gs brd c0") (auto split: option.splits)
qed


subsection \<open>One move\<close>

lemma updatePlayers_first:
  assumes "pid p1 = c" "pid p2 \<noteq> c"
  shows "updatePlayers c index e [p1, p2] nb =
           ([p1\<lparr>placedEmojis := enqueue (placedEmojis p1) index e\<rparr>, p2],
            evict (placedEmojis p1) index e nb)"
  using assms by (simp add: enqueue_def evict_def Let_def)

lemma updatePlayers_second:
  assumes "pid p1 \<noteq> c" "pid p2 = c"
  shows "updatePlayers c index e [p1, p2] nb =
           ([p1, p2\<lparr>placedEmojis := enqueue (placedEmojis p2) index e\<rparr>],
            evict (placedEmojis p2) index e nb)"
  using assms by (simp add: enqueue_def evict_def Let_def)

lemma getRandomEmoji_first:
  assumes "pid p1 = c" "emojis p1 \<noteq> []"
  shows "getRandomEmoji (p1 # ps) c g =
           (js_get (emojis p1) \<lfloor>double_mult (shd g) (real (length (emojis p1)))\<rfloor>, stl g)"
  using assms by (simp add: getRandomEmoji_def)

lemma getRandomEmoji_second:
  assumes "pid p1 \<noteq> c" "pid p2 = c" "emojis p2 \<noteq> []"
  shows "getRandomEmoji (p1 # p2 # ps) c g =
           (js_get (emojis p2) \<lfloor>double_mult (shd g) (real (length (emojis p2)))\<rfloor>, stl g)"
  using assms by (simp add: getRandomEmoji_def)

lemma handleCellClick_reject:
  assumes "\<not> gameStarted (gameState s) \<or> js_get (board (gameState s)) index \<noteq> Null
           \<or> winner (gameState s) \<noteq> None"
  shows "handleCellClick index s g = Inr (s, g)"
  using assms by (auto simp: handleCellClick_def)

lemma handleCellClick_accept:
  assumes guard: "gameStarted (gameState s)" "js_get (board (gameState s)) index = Null"
                 "winner (gameState s) = None"
      and draw: "getRandomEmoji (players s) (currentPlayer (gameState s)) g = (e, g')"
      and upd: "updatePlayers (currentPlayer (gameState s)) index e (players s)
                  (js_set (board (gameState s)) index e) = (ps', nb)"
      and win: "checkWinner (gameState s) nb = Inr (w, l)"
  shows "handleCellClick index s g =
           Inr (\<lparr>gameState = (gameState s)\<lparr>board := nb,
                    currentPlayer := (if currentPlayer (gameState s) = 1 then 2 else 1),
                    winner := w, winningLine := l\<rparr>,
                 players = ps',
                 scores = (if w \<noteq> None \<and> w \<noteq> Some 0 then
                             \<lparr>player1 = (if w = Some 1 then player1 (scores s) + 1
                                          else player1 (scores s)),
                              player2 = (if w = Some 2 then player2 (scores s) + 1
                                          else player2 (scores s))\<rparr>
                           else scores s)\<rparr>, g')"
  unfolding handleCellClick_def Let_def using guard by (simp add: draw upd win)

lemma handleCellClick_error:
  assumes guard: "gameStarted (gameState s)" "js_get (board (gameState s)) index = Null"
                 "winner (gameState s) = None"
      and draw: "getRandomEmoji (players s) (currentPlayer (gameState s)) g = (e, g')"
      and upd: "updatePlayers (currentPlayer (gameState s)) index e (players s)
                  (js_set (board (gameState s)) index e) = (ps', nb)"
      and win: "checkWinner (gameState s) nb = Inl err"
  shows "handleCellClick index s g = Inl err"
  unfolding handleCellClick_def Let_def using guard by (simp add: draw upd win)
subsection \<open>The queue and the board in one move\<close>

lemma length_enqueue: "length q \<le> 3 \<Longrightarrow> length (enqueue q i e) \<le> 3"
  by (simp add: enqueue_def)

lemma positions_enqueue_subset: "positions (enqueue q i e) \<subseteq> insert i (positions q)"
proof (cases q)
  case Nil
  then show ?thesis by (simp add: enqueue_def positions_def)
next
  case (Cons x xs)
  then show ?thesis by (auto simp: enqueue_def positions_def)
qed

lemma positions_enqueue_new: "i \<in> positions (enqueue q i e)"
proof (cases q)
  case Nil
  then show ?thesis by (simp add: enqueue_def positions_def)
next
  case (Cons x xs)
  then show ?thesis by (simp add: enqueue_def positions_def)
qed

lemma positions_enqueue_keep:
  assumes "k \<in> positions q" "length (q @ [(i, e)]) > 3 \<longrightarrow> k \<noteq> fst (hd (q @ [(i, e)]))"
  shows "k \<in> positions (enqueue q i e)"
proof (cases q)
  case Nil
  with assms show ?thesis by (simp add: positions_def)
next
  case (Cons x xs)
  with assms show ?thesis by (auto simp: enqueue_def positions_def)
qed

lemma evicted_in_range:
  assumes "length (q @ [(i, e)]) > 3" "\<forall>k \<in> positions q. 0 \<le> k \<and> k < n"
  shows "0 \<le> fst (hd (q @ [(i, e)])) \<and> fst (hd (q @ [(i, e)])) < n"
proof (cases q)
  case Nil
  with assms show ?thesis by simp
next
  case (Cons x xs)
  with assms show ?thesis by (simp add: positions_def)
qed

lemma length_move:
  assumes "0 \<le> i" "i < int (length brd)" "\<forall>k \<in> positions q. 0 \<le> k \<and> k < int (length brd)"
  shows "length (evict q i e (js_set brd i e)) = length brd"
proof (cases "length (q @ [(i, e)]) > 3")
  case True
  from evicted_in_range[OF True assms(3)] assms(1,2) True
  show ?thesis by (simp add: evict_def length_js_set)
next
  case False
  with assms show ?thesis by (simp add: evict_def length_js_set)
qed

lemma js_get_move:
  assumes "0 \<le> i" "i < int (length brd)" "\<forall>k \<in> positions q. 0 \<le> k \<and> k < int (length brd)"
  shows "js_get (evict q i e (js_set brd i e)) k =
           (if length (q @ [(i, e)]) > 3 \<and> k = fst (hd (q @ [(i, e)])) then Null
            else if k = i then e else js_get brd k)"
proof (cases "length (q @ [(i, e)]) > 3")
  case True
  from evicted_in_range[OF True assms(3)]
  have o: "0 \<le> fst (hd (q @ [(i, e)]))" "fst (hd (q @ [(i, e)])) < int (length (js_set brd i e))"
    using assms(1,2) by (simp_all add: length_js_set)
  have "evict q i e (js_set brd i e) = js_set (js_set brd i e) (fst (hd (q @ [(i, e)]))) Null"
    using True by (simp add: evict_def)
  then show ?thesis using True assms(1,2)
    by (simp add: js_get_js_set[OF o] js_get_js_set)
next
  case False
  then have "evict q i e (js_set brd i e) = js_set brd i e" by (simp add: evict_def)
  with False assms(1,2) show ?thesis by (simp add: js_get_js_set)
qed

lemma tracked_all_Null: "set brd \<subseteq> {Null} \<Longrightarrow> \<not> P Null \<Longrightarrow> tracked P brd S"
proof (unfold tracked_def, intro allI impI)
  fix k assume a: "set brd \<subseteq> {Null}" "\<not> P Null"
    and k: "0 \<le> k \<and> k < int (length brd) \<and> P (js_get brd k)"
  then have "js_get brd k \<in> set brd" by (simp add: js_get_mem)
  with a(1) have "js_get brd k = Null" by auto
  with a(2) k show "k \<in> S" by simp
qed

lemma tracked_move_own:
  assumes t: "tracked P brd (positions q \<union> Q)" and n: "\<not> P Null"
      and r: "0 \<le> i" "i < int (length brd)" "\<forall>k \<in> positions q. 0 \<le> k \<and> k < int (length brd)"
  shows "tracked P (evict q i e (js_set brd i e)) (positions (enqueue q i e) \<union> Q)"
proof (unfold tracked_def, intro allI impI)
  fix k
  assume k: "0 \<le> k \<and> k < int (length (evict q i e (js_set brd i e)))
             \<and> P (js_get (evict q i e (js_set brd i e)) k)"
  then have kr: "0 \<le> k" "k < int (length brd)" by (simp_all add: length_move[OF r])
  from k have p: "P (if length (q @ [(i, e)]) > 3 \<and> k = fst (hd (q @ [(i, e)])) then Null
                     else if k = i then e else js_get brd k)"
    by (simp only: js_get_move[OF r])
  with n have ne: "length (q @ [(i, e)]) > 3 \<longrightarrow> k \<noteq> fst (hd (q @ [(i, e)]))" by auto
  show "k \<in> positions (enqueue q i e) \<union> Q"
  proof (cases "k = i")
    case True
    then show ?thesis by (simp add: positions_enqueue_new)
  next
    case False
    with p ne have "P (js_get brd k)" by (simp split: if_splits)
    with t kr have "k \<in> positions q \<union> Q" by (simp add: tracked_def)
    then show ?thesis using positions_enqueue_keep[OF _ ne] by blast
  qed
qed

lemma tracked_move_other:
  assumes t: "tracked P brd Q" and n: "\<not> P Null" "\<not> P e"
      and r: "0 \<le> i" "i < int (length brd)" "\<forall>k \<in> positions q. 0 \<le> k \<and> k < int (length brd)"
  shows "tracked P (evict q i e (js_set brd i e)) Q"
proof (unfold tracked_def, intro allI impI)
  fix k
  assume k: "0 \<le> k \<and> k < int (length (evict q i e (js_set brd i e)))
             \<and> P (js_get (evict q i e (js_set brd i e)) k)"
  then have kr: "0 \<le> k" "k < int (length brd)" by (simp_all add: length_move[OF r])
  from k have p: "P (if length (q @ [(i, e)]) > 3 \<and> k = fst (hd (q @ [(i, e)])) then Null
                     else if k = i then e else js_get brd k)"
    by (simp only: js_get_move[OF r])
  with n have "P (js_get brd k)" by (auto split: if_splits)
  with t kr show "k \<in> Q" by (simp add: tracked_def)
qed

lemma tracked_count:
  assumes t: "tracked P brd S" and f: "finite S"
  shows "length (filter P brd) \<le> card S"
proof -
  let ?I = "{i. i < length brd \<and> P (brd ! i)}"
  have "length (filter P brd) = card ?I" by (rule length_filter_conv_card)
  also have "\<dots> = card (int ` ?I)" by (simp add: card_image)
  also have "int ` ?I \<subseteq> S"
  proof
    fix k assume "k \<in> int ` ?I"
    then obtain i where i: "k = int i" "i < length brd" "P (brd ! i)" by auto
    then have "0 \<le> k \<and> k < int (length brd) \<and> P (js_get brd k)" by (simp add: js_get_def)
    with t show "k \<in> S" by (simp add: tracked_def)
  qed
  then have "card (int ` ?I) \<le> card S" using f by (rule card_mono[rotated])
  finally show ?thesis .
qed

lemma card_positions: "card (positions q) \<le> length q"
  unfolding positions_def by (rule order_trans[OF card_image_le card_length]) simp
subsection \<open>The invariant\<close>

lemma Null_not_in_category: "lookupCategory k = Some cat \<Longrightarrow> Null \<notin> set cat"
  using category_truthy by fastforce

lemma inv_parts_cleared:
  assumes "pid p1 = 1" "pid p2 = 2"
      and c1: "lookupCategory (player1Category gs) = Some cat1"
      and c2: "lookupCategory (player2Category gs) = Some cat2"
      and b: "length (board gs) = 9" "set (board gs) \<subseteq> {Null}"
      and "currentPlayer gs = 1 \<or> currentPlayer gs = 2"
      and "length (placedEmojis p1) \<le> 3" "length (placedEmojis p2) \<le> 3"
      and "\<forall>k \<in> positions (placedEmojis p1). 0 \<le> k \<and> k < 9"
      and "\<forall>k \<in> positions (placedEmojis p2). 0 \<le> k \<and> k < 9"
      and "gameStarted gs \<longrightarrow> set (emojis p1) = set cat1 \<and> set (emojis p2) = set cat2"
  shows "inv_parts gs p1 p2 cat1 cat2"
proof -
  have "tracked (\<lambda>v. v \<noteq> Null) (board gs) (positions (placedEmojis p1) \<union> positions (placedEmojis p2))"
    using b(2) by (rule tracked_all_Null) simp
  moreover have "tracked (\<lambda>v. v \<in> set cat1) (board gs) (positions (placedEmojis p1))"
    using b(2) Null_not_in_category[OF c1] by (rule tracked_all_Null)
  moreover have "tracked (\<lambda>v. v \<in> set cat2) (board gs) (positions (placedEmojis p2))"
    using b(2) Null_not_in_category[OF c2] by (rule tracked_all_Null)
  ultimately show ?thesis
    unfolding inv_parts_def using assms by simp
qed

lemma app_inv_initial: "app_inv initialApp"
  unfolding app_inv_def
proof (intro exI conjI)
  show "players initialApp = [\<lparr>pid = 1, category = ''tech'', emojis = [], placedEmojis = []\<rparr>,
                               \<lparr>pid = 2, category = ''space'', emojis = [], placedEmojis = []\<rparr>]"
    by (simp add: initialApp_def)
  have t: "lookupCategory ''tech'' = Some (the (lookupCategory ''tech''))"
          "lookupCategory ''space'' = Some (the (lookupCategory ''space''))"
    by (simp_all add: lookupCategory_def emojiCategories_def)
  show "inv_parts (gameState initialApp)
          \<lparr>pid = 1, category = ''tech'', emojis = [], placedEmojis = []\<rparr>
          \<lparr>pid = 2, category = ''space'', emojis = [], placedEmojis = []\<rparr>
          (the (lookupCategory ''tech'')) (the (lookupCategory ''space''))"
    by (rule inv_parts_cleared)
       (simp_all add: initialApp_def initialGameState_def positions_def t[symmetric])
qed

lemma initPlayers_two:
  assumes ids: "pid p1 = 1" "pid p2 \<noteq> 1"
      and c1: "lookupCategory (player1Category gs) = Some cat1"
      and c2: "lookupCategory (player2Category gs) = Some cat2"
      and g: "rng_ok g"
  shows "\<exists>e1 e2 g'. initPlayers gs [p1, p2] g =
           Inr ([p1\<lparr>category := player1Category gs, emojis := e1, placedEmojis := []\<rparr>,
                 p2\<lparr>category := player2Category gs, emojis := e2, placedEmojis := []\<rparr>], g')
         \<and> set e1 = set cat1 \<and> set e2 = set cat2 \<and> rng_ok g'"
proof -
  obtain e1 g1 where s1: "shuffle (length cat1 - 1) cat1 g = (e1, g1)"
    by (cases "shuffle (length cat1 - 1) cat1 g") blast
  have "length cat1 - 1 < length cat1" using category_nonempty[OF c1] by (cases cat1) simp_all
  from shuffle_perm[OF g this] s1 have r1: "set e1 = set cat1" "rng_ok g1" by simp_all
  obtain e2 g2 where s2: "shuffle (length cat2 - 1) cat2 g1 = (e2, g2)"
    by (cases "shuffle (length cat2 - 1) cat2 g1") blast
  have "length cat2 - 1 < length cat2" using category_nonempty[OF c2] by (cases cat2) simp_all
  from shuffle_perm[OF r1(2) this] s2 have r2: "set e2 = set cat2" "rng_ok g2" by simp_all
  have "initPlayers gs [p1, p2] g =
           Inr ([p1\<lparr>category := player1Category gs, emojis := e1, placedEmojis := []\<rparr>,
                 p2\<lparr>category := player2Category gs, emojis := e2, placedEmojis := []\<rparr>], g2)"
    using ids s1 s2 by (simp add: c1 c2)
  with r1 r2 show ?thesis by blast
qed
lemma inv_parts_move1:
  assumes inv: "inv_parts gs p1 p2 cat1 cat2"
      and st: "gameStarted gs" and cell: "js_get (board gs) i = Null"
      and e: "e \<in> set cat1" and c': "c' = 1 \<or> c' = 2"
  shows "inv_parts
           (gs\<lparr>board := evict (placedEmojis p1) i e (js_set (board gs) i e),
               currentPlayer := c', winner := w, winningLine := l\<rparr>)
           (p1\<lparr>placedEmojis := enqueue (placedEmojis p1) i e\<rparr>) p2 cat1 cat2"
proof -
  let ?q = "placedEmojis p1" and ?brd = "board gs"
  let ?nb = "evict ?q i e (js_set ?brd i e)"
  from inv have len: "length ?brd = 9"
    and c1: "lookupCategory (player1Category gs) = Some cat1"
    and c2: "lookupCategory (player2Category gs) = Some cat2"
    and q1: "\<forall>k \<in> positions ?q. 0 \<le> k \<and> k < 9"
    and tr: "tracked (\<lambda>v. v \<noteq> Null) ?brd (positions ?q \<union> positions (placedEmojis p2))"
    by (simp_all add: inv_parts_def)
  from js_get_Null_range[OF cell] len have i: "0 \<le> i" "i < int (length ?brd)" by simp_all
  from q1 len have q: "\<forall>k \<in> positions ?q. 0 \<le> k \<and> k < int (length ?brd)" by simp
  have l': "length ?nb = 9" using length_move[OF i q] len by simp
  have r': "\<forall>k \<in> positions (enqueue ?q i e). 0 \<le> k \<and> k < 9"
    using positions_enqueue_subset[of ?q i e] q1 i len by auto
  have t': "tracked (\<lambda>v. v \<noteq> Null) ?nb (positions (enqueue ?q i e) \<union> positions (placedEmojis p2))"
    using tr _ i q by (rule tracked_move_own) simp
  have d: "player1Category gs \<noteq> player2Category gs \<longrightarrow>
             tracked (\<lambda>v. v \<in> set cat1) ?nb (positions (enqueue ?q i e)) \<and>
             tracked (\<lambda>v. v \<in> set cat2) ?nb (positions (placedEmojis p2))"
  proof
    assume ne: "player1Category gs \<noteq> player2Category gs"
    with inv have o: "tracked (\<lambda>v. v \<in> set cat1) ?brd (positions ?q \<union> {})"
      and p: "tracked (\<lambda>v. v \<in> set cat2) ?brd (positions (placedEmojis p2))"
      by (simp_all add: inv_parts_def)
    have "tracked (\<lambda>v. v \<in> set cat1) ?nb (positions (enqueue ?q i e) \<union> {})"
      using o Null_not_in_category[OF c1] i q by (rule tracked_move_own)
    moreover have "tracked (\<lambda>v. v \<in> set cat2) ?nb (positions (placedEmojis p2))"
      using p Null_not_in_category[OF c2] categories_disjoint[OF c1 c2 ne e] i q
      by (rule tracked_move_other)
    ultimately show "tracked (\<lambda>v. v \<in> set cat1) ?nb (positions (enqueue ?q i e)) \<and>
             tracked (\<lambda>v. v \<in> set cat2) ?nb (positions (placedEmojis p2))" by simp
  qed
  show ?thesis
    unfolding inv_parts_def
    using inv st c' l' r' t' d length_enqueue[of ?q i e]
    by (simp add: inv_parts_def)
qed

lemma inv_parts_move2:
  assumes inv: "inv_parts gs p1 p2 cat1 cat2"
      and st: "gameStarted gs" and cell: "js_get (board gs) i = Null"
      and e: "e \<in> set cat2" and c': "c' = 1 \<or> c' = 2"
  shows "inv_parts
           (gs\<lparr>board := evict (placedEmojis p2) i e (js_set (board gs) i e),
               currentPlayer := c', winner := w, winningLine := l\<rparr>)
           p1 (p2\<lparr>placedEmojis := enqueue (placedEmojis p2) i e\<rparr>) cat1 cat2"
proof -
  let ?q = "placedEmojis p2" and ?brd = "board gs"
  let ?nb = "evict ?q i e (js_set ?brd i e)"
  from inv have len: "length ?brd = 9"
    and c1: "lookupCategory (player1Category gs) = Some cat1"
    and c2: "lookupCategory (player2Category gs) = Some cat2"
    and q1: "\<forall>k \<in> positions ?q. 0 \<le> k \<and> k < 9"
    and tr: "tracked (\<lambda>v. v \<noteq> Null) ?brd (positions ?q \<union> positions (placedEmojis p1))"
    by (simp_all add: inv_parts_def Un_commute)
  from js_get_Null_range[OF cell] len have i: "0 \<le> i" "i < int (length ?brd)" by simp_all
  from q1 len have q: "\<forall>k \<in> positions ?q. 0 \<le> k \<and> k < int (length ?brd)" by simp
  have l': "length ?nb = 9" using length_move[OF i q] len by simp
  have r': "\<forall>k \<in> positions (enqueue ?q i e). 0 \<le> k \<and> k < 9"
    using positions_enqueue_subset[of ?q i e] q1 i len by auto
  have "tracked (\<lambda>v. v \<noteq> Null) ?nb (positions (enqueue ?q i e) \<union> positions (placedEmojis p1))"
    using tr _ i q by (rule tracked_move_own) simp
  then have t': "tracked (\<lambda>v. v \<noteq> Null) ?nb
                   (positions (placedEmojis p1) \<union> positions (enqueue ?q i e))"
    by (simp add: Un_commute)
  have d: "player1Category gs \<noteq> player2Category gs \<longrightarrow>
             tracked (\<lambda>v. v \<in> set cat1) ?nb (positions (placedEmojis p1)) \<and>
             tracked (\<lambda>v. v \<in> set cat2) ?nb (positions (enqueue ?q i e))"
  proof
    assume ne: "player1Category gs \<noteq> player2Category gs"
    with inv have o: "tracked (\<lambda>v. v \<in> set cat2) ?brd (positions ?q \<union> {})"
      and p: "tracked (\<lambda>v. v \<in> set cat1) ?brd (positions (placedEmojis p1))"
      by (simp_all add: inv_parts_def)
    have "tracked (\<lambda>v. v \<in> set cat2) ?nb (positions (enqueue ?q i e) \<union> {})"
      using o Null_not_in_category[OF c2] i q by (rule tracked_move_own)
    moreover have "tracked (\<lambda>v. v \<in> set cat1) ?nb (positions (placedEmojis p1))"
      using p Null_not_in_category[OF c1] categories_disjoint[OF c2 c1 ne[symmetric] e] i q
      by (rule tracked_move_other)
    ultimately show "tracked (\<lambda>v. v \<in> set cat1) ?nb (positions (placedEmojis p1)) \<and>
             tracked (\<lambda>v. v \<in> set cat2) ?nb (positions (enqueue ?q i e))" by simp
  qed
  show ?thesis
    unfolding inv_parts_def
    using inv st c' l' r' t' d length_enqueue[of ?q i e]
    by (simp add: inv_parts_def)
qed
lemma afterRender_same:
  "effectDeps (gameState s') = effectDeps (gameState s) \<Longrightarrow> afterRender s s' g = Inr (s', g)"
  by (simp add: afterRender_def)

lemma afterRender_setup:
  "\<not> gameStarted (gameState s') \<Longrightarrow> afterRender s s' g = Inr (s', g)"
  by (simp add: afterRender_def playersEffect_def)

lemma app_invI:
  "players s = [p1, p2] \<Longrightarrow> inv_parts (gameState s) p1 p2 cat1 cat2 \<Longrightarrow> app_inv s"
  unfolding app_inv_def by blast

lemma cell_step:
  assumes inv: "app_inv s" and g: "rng_ok g"
  shows "\<exists>s' g'. handleCellClick i s g = Inr (s', g') \<and> app_inv s' \<and> rng_ok g'
                 \<and> effectDeps (gameState s') = effectDeps (gameState s)"
proof (cases "\<not> gameStarted (gameState s) \<or> js_get (board (gameState s)) i \<noteq> Null
              \<or> winner (gameState s) \<noteq> None")
  case True
  then have "handleCellClick i s g = Inr (s, g)" by (rule handleCellClick_reject)
  with inv g show ?thesis by simp
next
  case False
  then have guard: "gameStarted (gameState s)" "js_get (board (gameState s)) i = Null"
    "winner (gameState s) = None" by simp_all
  let ?gs = "gameState s"
  from inv obtain p1 p2 cat1 cat2 where ps: "players s = [p1, p2]"
    and ip: "inv_parts ?gs p1 p2 cat1 cat2" by (auto simp: app_inv_def)
  from ip guard(1) have ids: "pid p1 = 1" "pid p2 = 2"
    and c1: "lookupCategory (player1Category ?gs) = Some cat1"
    and c2: "lookupCategory (player2Category ?gs) = Some cat2"
    and em: "set (emojis p1) = set cat1" "set (emojis p2) = set cat2"
    and cur: "currentPlayer ?gs = 1 \<or> currentPlayer ?gs = 2"
    by (simp_all add: inv_parts_def)
  from cur show ?thesis
  proof
    assume c: "currentPlayer ?gs = 1"
    let ?e = "js_get (emojis p1) \<lfloor>double_mult (shd g) (real (length (emojis p1)))\<rfloor>"
    let ?nb = "evict (placedEmojis p1) i ?e (js_set (board ?gs) i ?e)"
    let ?p1 = "p1\<lparr>placedEmojis := enqueue (placedEmojis p1) i ?e\<rparr>"
    have ne: "emojis p1 \<noteq> []" using em(1) category_nonempty[OF c1] by auto
    then have "0 < length (emojis p1)" by simp
    from floor_unit[OF rng_ok_shd[OF g] this]
    have "?e \<in> set (emojis p1)" by (intro js_get_mem) simp_all
    with em have e: "?e \<in> set cat1" by simp
    have draw: "getRandomEmoji (players s) (currentPlayer ?gs) g = (?e, stl g)"
      using ids ne by (simp add: ps c getRandomEmoji_first)
    have upd: "updatePlayers (currentPlayer ?gs) i ?e (players s) (js_set (board ?gs) i ?e)
                 = ([?p1, p2], ?nb)"
      unfolding ps c by (rule updatePlayers_first) (simp_all add: ids)
    from checkWinner_loop_total[OF c1 c2] obtain w l where
      win: "checkWinner ?gs ?nb = Inr (w, l)" unfolding checkWinner_def by blast
    let ?gs' = "?gs\<lparr>board := ?nb, currentPlayer := (if currentPlayer ?gs = 1 then 2 else 1),
                      winner := w, winningLine := l\<rparr>"
    from handleCellClick_accept[OF guard draw upd win]
    obtain sc where h: "handleCellClick i s g =
        Inr (\<lparr>gameState = ?gs', players = [?p1, p2], scores = sc\<rparr>, stl g)" by blast
    have "inv_parts ?gs' ?p1 p2 cat1 cat2"
      using ip guard(1,2) e by (rule inv_parts_move1) (simp add: c)
    then have "app_inv \<lparr>gameState = ?gs', players = [?p1, p2], scores = sc\<rparr>"
      by (intro app_invI[of _ ?p1 p2 cat1 cat2]) simp_all
    moreover have "effectDeps ?gs' = effectDeps ?gs" by (simp add: effectDeps_def)
    ultimately show ?thesis using h rng_ok_stl[OF g] by simp
  next
    assume c: "currentPlayer ?gs = 2"
    let ?e = "js_get (emojis p2) \<lfloor>double_mult (shd g) (real (length (emojis p2)))\<rfloor>"
    let ?nb = "evict (placedEmojis p2) i ?e (js_set (board ?gs) i ?e)"
    let ?p2 = "p2\<lparr>placedEmojis := enqueue (placedEmojis p2) i ?e\<rparr>"
    have ne: "emojis p2 \<noteq> []" using em(2) category_nonempty[OF c2] by auto
    then have "0 < length (emojis p2)" by simp
    from floor_unit[OF rng_ok_shd[OF g] this]
    have "?e \<in> set (emojis p2)" by (intro js_get_mem) simp_all
    with em have e: "?e \<in> set cat2" by simp
    have draw: "getRandomEmoji (players s) (currentPlayer ?gs) g = (?e, stl g)"
      using ids ne by (simp add: ps c getRandomEmoji_second)
    have upd: "updatePlayers (currentPlayer ?gs) i ?e (players s) (js_set (board ?gs) i ?e)
                 = ([p1, ?p2], ?nb)"
      unfolding ps c by (rule updatePlayers_second) (simp_all add: ids)
    from checkWinner_loop_total[OF c1 c2] obtain w l where
      win: "checkWinner ?gs ?nb = Inr (w, l)" unfolding checkWinner_def by blast
    let ?gs' = "?gs\<lparr>board := ?nb, currentPlayer := (if currentPlayer ?gs = 1 then 2 else 1),
                      winner := w, winningLine := l\<rparr>"
    from handleCellClick_accept[OF guard draw upd win]
    obtain sc where h: "handleCellClick i s g =
        Inr (\<lparr>gameState = ?gs', players = [p1, ?p2], scores = sc\<rparr>, stl g)" by blast
    have "inv_parts ?gs' p1 ?p2 cat1 cat2"
      using ip guard(1,2) e by (rule inv_parts_move2) (simp add: c)
    then have "app_inv \<lparr>gameState = ?gs', players = [p1, ?p2], scores = sc\<rparr>"
      by (intro app_invI[of _ p1 ?p2 cat1 cat2]) simp_all
    moreover have "effectDeps ?gs' = effectDeps ?gs" by (simp add: effectDeps_def)
    ultimately show ?thesis using h rng_ok_stl[OF g] by simp
  qed
qed

lemma start_step:
  assumes inv: "app_inv s" and g: "rng_ok g" and ns: "\<not> gameStarted (gameState s)"
  shows "\<exists>s' g'. afterRender s (startGame s) g = Inr (s', g') \<and> app_inv s' \<and> rng_ok g'"
proof -
  let ?gs = "gameState s" and ?gs' = "gameState (startGame s)"
  from inv obtain p1 p2 cat1 cat2 where ps: "players s = [p1, p2]"
    and ip: "inv_parts ?gs p1 p2 cat1 cat2" by (auto simp: app_inv_def)
  from ip have ids: "pid p1 = 1" "pid p2 = 2"
    and c1: "lookupCategory (player1Category ?gs') = Some cat1"
    and c2: "lookupCategory (player2Category ?gs') = Some cat2"
    by (simp_all add: inv_parts_def startGame_def)
  have p2: "pid p2 \<noteq> 1" using ids by simp
  from initPlayers_two[OF ids(1) p2 c1 c2 g] obtain e1 e2 g' where
    ini: "initPlayers ?gs' [p1, p2] g =
           Inr ([p1\<lparr>category := player1Category ?gs', emojis := e1, placedEmojis := []\<rparr>,
                 p2\<lparr>category := player2Category ?gs', emojis := e2, placedEmojis := []\<rparr>], g')"
    and es: "set e1 = set cat1" "set e2 = set cat2" and g': "rng_ok g'" by blast
  let ?p1 = "p1\<lparr>category := player1Category ?gs', emojis := e1, placedEmojis := []\<rparr>"
  let ?p2 = "p2\<lparr>category := player2Category ?gs', emojis := e2, placedEmojis := []\<rparr>"
  have st: "gameStarted ?gs'" by (simp add: startGame_def)
  have "effectDeps ?gs' \<noteq> effectDeps ?gs" using ns st by (simp add: effectDeps_def)
  then have a: "afterRender s (startGame s) g = Inr ((startGame s)\<lparr>players := [?p1, ?p2]\<rparr>, g')"
    using st ini by (simp add: afterRender_def playersEffect_def startGame_def ps)
  have "inv_parts ?gs' ?p1 ?p2 cat1 cat2"
    using ids c1 c2 es by (intro inv_parts_cleared) (simp_all add: startGame_def positions_def)
  then have "app_inv ((startGame s)\<lparr>players := [?p1, ?p2]\<rparr>)"
    by (intro app_invI[of _ ?p1 ?p2 cat1 cat2]) (simp_all add: startGame_def)
  with a g' show ?thesis by blast
qed

lemma startGame_inv:
  assumes inv: "app_inv s" and st: "gameStarted (gameState s)"
  shows "app_inv (startGame s)"
proof -
  from inv obtain p1 p2 cat1 cat2 where ps: "players s = [p1, p2]"
    and ip: "inv_parts (gameState s) p1 p2 cat1 cat2" by (auto simp: app_inv_def)
  have "inv_parts (gameState (startGame s)) p1 p2 cat1 cat2"
    using ip st by (intro inv_parts_cleared) (simp_all add: startGame_def inv_parts_def)
  then show ?thesis using ps by (intro app_invI[of _ p1 p2 cat1 cat2]) (simp_all add: startGame_def)
qed

lemma resetGame_inv:
  assumes inv: "app_inv s"
  shows "app_inv (resetGame s)"
proof -
  from inv obtain p1 p2 cat1 cat2 where
    ip: "inv_parts (gameState s) p1 p2 cat1 cat2" by (auto simp: app_inv_def)
  let ?p1 = "\<lparr>pid = 1, category = player1Category (gameState s), emojis = [], placedEmojis = []\<rparr>"
  let ?p2 = "\<lparr>pid = 2, category = player2Category (gameState s), emojis = [], placedEmojis = []\<rparr>"
  have "inv_parts (gameState (resetGame s)) ?p1 ?p2 cat1 cat2"
    using ip by (intro inv_parts_cleared)
      (simp_all add: resetGame_def initialGameState_def inv_parts_def positions_def)
  then show ?thesis by (intro app_invI[of _ ?p1 ?p2 cat1 cat2]) (simp_all add: resetGame_def)
qed

lemma handleCategoryChange_inv:
  assumes inv: "app_inv s" and ns: "\<not> gameStarted (gameState s)" and k: "cat \<in> set categoryKeys"
  shows "app_inv (handleCategoryChange p cat s)"
proof -
  from inv obtain p1 p2 cat1 cat2 where ps: "players s = [p1, p2]"
    and ip: "inv_parts (gameState s) p1 p2 cat1 cat2" by (auto simp: app_inv_def)
  from lookupCategory_key[OF k] obtain c where c: "lookupCategory cat = Some c" by blast
  show ?thesis
  proof (cases "p = 1")
    case True
    have "inv_parts (gameState (handleCategoryChange p cat s)) p1 p2 c cat2"
      using ip ns c True
      by (intro inv_parts_cleared) (simp_all add: handleCategoryChange_def inv_parts_def)
    then show ?thesis using ps
      by (intro app_invI[of _ p1 p2 c cat2]) (simp_all add: handleCategoryChange_def)
  next
    case False
    have "inv_parts (gameState (handleCategoryChange p cat s)) p1 p2 cat1 c"
      using ip ns c False
      by (intro inv_parts_cleared) (simp_all add: handleCategoryChange_def inv_parts_def)
    then show ?thesis using ps
      by (intro app_invI[of _ p1 p2 cat1 c]) (simp_all add: handleCategoryChange_def)
  qed
qed

lemma dispatch_inv:
  assumes inv: "app_inv s" and g: "rng_ok g"
  shows "\<exists>s' g'. dispatch ev s g = Inr (s', g') \<and> app_inv s' \<and> rng_ok g'"
proof (cases "enabled s ev")
  case False
  with inv g show ?thesis by (simp add: dispatch_def)
next
  case en: True
  show ?thesis
  proof (cases ev)
    case (CategoryButton p cat)
    with en have ns: "\<not> gameStarted (gameState s)" and k: "cat \<in> set categoryKeys" by simp_all
    have "\<not> gameStarted (gameState (handleCategoryChange p cat s))"
      using ns by (simp add: handleCategoryChange_def)
    from afterRender_setup[OF this]
    have "dispatch ev s g = Inr (handleCategoryChange p cat s, g)"
      using en CategoryButton by (simp add: dispatch_def)
    with handleCategoryChange_inv[OF inv ns k] g show ?thesis by blast
  next
    case StartButton
    with en have ns: "\<not> gameStarted (gameState s)" by simp
    from start_step[OF inv g ns] en StartButton show ?thesis by (simp add: dispatch_def)
  next
    case PlayAgainButton
    with en have st: "gameStarted (gameState s)" by simp
    then have "effectDeps (gameState (startGame s)) = effectDeps (gameState s)"
      by (simp add: effectDeps_def startGame_def)
    from afterRender_same[OF this]
    have "dispatch ev s g = Inr (startGame s, g)"
      using en PlayAgainButton by (simp add: dispatch_def)
    with startGame_inv[OF inv st] g show ?thesis by blast
  next
    case (Cell i)
    from cell_step[OF inv g, of i] obtain s' g' where
      h: "handleCellClick i s g = Inr (s', g')" and r: "app_inv s'" "rng_ok g'"
      and d: "effectDeps (gameState s') = effectDeps (gameState s)" by blast
    from afterRender_same[OF d] h en Cell r show ?thesis by (simp add: dispatch_def)
  next
    case ResetButton
    have "\<not> gameStarted (gameState (resetGame s))"
      by (simp add: resetGame_def initialGameState_def)
    from afterRender_setup[OF this]
    have "dispatch ev s g = Inr (resetGame s, g)"
      using en ResetButton by (simp add: dispatch_def)
    with resetGame_inv[OF inv] g show ?thesis by blast
  qed
qed

lemma run_inv:
  "app_inv s \<Longrightarrow> rng_ok g \<Longrightarrow> \<exists>s' g'. run evs s g = Inr (s', g') \<and> app_inv s' \<and> rng_ok g'"
proof (induction evs arbitrary: s g)
  case Nil
  then show ?case by simp
next
  case (Cons ev evs)
  from dispatch_inv[OF Cons.prems, of ev] obtain s1 g1 where
    d: "dispatch ev s g = Inr (s1, g1)" and i: "app_inv s1" "rng_ok g1" by blast
  from Cons.IH[OF i] d show ?case by simp
qed
subsection \<open>The game played through\<close>

lemma shuffle_Suc_eval:
  "shuffle (Suc i) xs g =
     shuffle i (js_set (js_set xs (int (Suc i)) (js_get xs \<lfloor>double_mult (shd g) (real (Suc i + 1))\<rfloor>))
                  \<lfloor>double_mult (shd g) (real (Suc i + 1))\<rfloor> (js_get xs (int (Suc i)))) (stl g)"
  by (simp add: Let_def)

lemma replicate_nine: "replicate 9 x = [x, x, x, x, x, x, x, x, x]"
  by (simp add: numeral_eq_Suc)

lemma shuffle_demo:
  "shuffle (length (the (lookupCategory ''tech'')) - 1) (the (lookupCategory ''tech'')) (sconst 0) =
     (emojis (demoPlayers [] [] ! 0), sconst 0)"
  "shuffle (length (the (lookupCategory ''space'')) - 1) (the (lookupCategory ''space'')) (sconst 0) =
     (emojis (demoPlayers [] [] ! 1), sconst 0)"
  by (simp_all add: lookupCategory_def emojiCategories_def js_get_def js_set_def shuffle_Suc_eval
        demoPlayers_def del: shuffle.simps(2))

lemma demo_start: "dispatch StartButton initialApp (sconst 0) = Inr (started, sconst 0)"
  using shuffle_demo
  by (simp add: dispatch_def afterRender_def effectDeps_def playersEffect_def startGame_def
        initialApp_def initialGameState_def lookupCategory_def emojiCategories_def started_def
        demoPlayers_def demoGame_def replicate_nine
      del: shuffle.simps)

lemmas click_defs =
  dispatch_def afterRender_def effectDeps_def handleCellClick_def startGame_def
  getRandomEmoji_def checkWinner_def checkCombo_def winningCombinations_def lookupCategory_def
  emojiCategories_def js_get_def js_set_def js_includes_def demoPlayers_def demoGame_def
  phone_def saucer_def replicate_nine

lemma demo_mid: "run [Cell 0, Cell 3, Cell 1, Cell 4] started (sconst 0) = Inr (midGame, sconst 0)"
  by (simp add: click_defs started_def midGame_def)

lemma demo_win: "handleCellClick 2 midGame (sconst 0) = Inr (wonGame, sconst 0)"
  by (simp add: click_defs midGame_def wonGame_def)

lemma demo_rematch: "dispatch PlayAgainButton wonGame (sconst 0) = Inr (rematch, sconst 0)"
  by (simp add: click_defs wonGame_def rematch_def)

lemma demo_rematch_move: "handleCellClick 0 rematch (sconst 0) = Inr (rematchMove, sconst 0)"
  by (simp add: click_defs rematch_def rematchMove_def)

lemma run_append:
  "run (xs @ ys) s g = (case run xs s g of Inl e \<Rightarrow> Inl e | Inr (s', g') \<Rightarrow> run ys s' g')"
proof (induction xs arbitrary: s g)
  case Nil
  show ?case by simp
next
  case (Cons x xs)
  then show ?case by (cases "dispatch x s g") auto
qed

lemma dispatch_Cell_started:
  "gameStarted (gameState s) \<Longrightarrow> 0 \<le> i \<Longrightarrow> i < 9 \<Longrightarrow> handleCellClick i s g = Inr (s', g') \<Longrightarrow>
   gameStarted (gameState s') \<Longrightarrow> player1Category (gameState s') = player1Category (gameState s) \<Longrightarrow>
   player2Category (gameState s') = player2Category (gameState s) \<Longrightarrow>
   dispatch (Cell i) s g = Inr (s', g')"
  by (simp add: dispatch_def afterRender_def effectDeps_def)

lemma demo_run_won:
  "run [StartButton, Cell 0, Cell 3, Cell 1, Cell 4, Cell 2] initialApp (sconst 0)
     = Inr (wonGame, sconst 0)"
proof -
  have w: "dispatch (Cell 2) midGame (sconst 0) = Inr (wonGame, sconst 0)"
    using demo_win by (rule dispatch_Cell_started[rotated 3])
      (simp_all add: midGame_def wonGame_def demoGame_def)
  have "run ([StartButton] @ [Cell 0, Cell 3, Cell 1, Cell 4] @ [Cell 2]) initialApp (sconst 0)
          = Inr (wonGame, sconst 0)"
    unfolding run_append using demo_start demo_mid w by simp
  then show ?thesis by simp
qed

lemma demo_run_rematch:
  "run [StartButton, Cell 0, Cell 3, Cell 1, Cell 4, Cell 2, PlayAgainButton] initialApp (sconst 0)
     = Inr (rematch, sconst 0)"
proof -
  have "run ([StartButton, Cell 0, Cell 3, Cell 1, Cell 4, Cell 2] @ [PlayAgainButton])
          initialApp (sconst 0) = Inr (rematch, sconst 0)"
    unfolding run_append using demo_run_won demo_rematch by simp
  then show ?thesis by simp
qed
subsection \<open>Counting the occupied cells\<close>

lemma app_inv_queues:
  assumes "app_inv s"
  shows "\<forall>p \<in> set (players s). length (placedEmojis p) \<le> 3"
  using assms by (auto simp: app_inv_def inv_parts_def)

lemma finite_positions: "finite (positions q)"
  by (simp add: positions_def)

lemma app_inv_occupied:
  assumes "app_inv s"
  shows "length (board (gameState s)) = 9"
    and "length (filter (\<lambda>v. v \<noteq> Null) (board (gameState s))) \<le> 6"
proof -
  from assms obtain p1 p2 cat1 cat2 where ps: "players s = [p1, p2]"
    and ip: "inv_parts (gameState s) p1 p2 cat1 cat2" by (auto simp: app_inv_def)
  from ip show "length (board (gameState s)) = 9" by (simp add: inv_parts_def)
  let ?S = "positions (placedEmojis p1) \<union> positions (placedEmojis p2)"
  from ip have t: "tracked (\<lambda>v. v \<noteq> Null) (board (gameState s)) ?S"
    and l: "length (placedEmojis p1) \<le> 3" "length (placedEmojis p2) \<le> 3"
    by (simp_all add: inv_parts_def)
  have "length (filter (\<lambda>v. v \<noteq> Null) (board (gameState s))) \<le> card ?S"
    using t by (rule tracked_count) (simp add: finite_positions)
  also have "\<dots> \<le> card (positions (placedEmojis p1)) + card (positions (placedEmojis p2))"
    by (rule card_Un_le)
  also have "\<dots> \<le> 3 + 3"
    using card_positions[of "placedEmojis p1"] card_positions[of "placedEmojis p2"] l
    by linarith
  finally show "length (filter (\<lambda>v. v \<noteq> Null) (board (gameState s))) \<le> 6" by simp
qed

lemma full_board_count:
  assumes "length brd = 9" "\<forall>i. 0 \<le> i \<and> i < 9 \<longrightarrow> js_get brd i \<noteq> Null"
  shows "length (filter (\<lambda>v. v \<noteq> Null) brd) = 9"
proof -
  have "\<forall>x \<in> set brd. x \<noteq> Null"
  proof
    fix x assume "x \<in> set brd"
    then obtain n where n: "n < length brd" "brd ! n = x" by (auto simp: in_set_conv_nth)
    with assms(1) have "0 \<le> int n \<and> int n < 9" by simp
    with assms(2) have "js_get brd (int n) \<noteq> Null" by blast
    with n show "x \<noteq> Null" by (simp add: js_get_def)
  qed
  then have "filter (\<lambda>v. v \<noteq> Null) brd = brd" by (simp add: filter_id_conv)
  with assms(1) show ?thesis by simp
qed

lemma app_inv_cells:
  assumes inv: "app_inv s"
      and ne: "player1Category (gameState s) \<noteq> player2Category (gameState s)"
  shows "cellsOfCategory (gameState s) (player1Category (gameState s)) \<le> 3"
    and "cellsOfCategory (gameState s) (player2Category (gameState s)) \<le> 3"
proof -
  from inv obtain p1 p2 cat1 cat2 where
    ip: "inv_parts (gameState s) p1 p2 cat1 cat2" by (auto simp: app_inv_def)
  from ip ne have c1: "lookupCategory (player1Category (gameState s)) = Some cat1"
    and c2: "lookupCategory (player2Category (gameState s)) = Some cat2"
    and t1: "tracked (\<lambda>v. v \<in> set cat1) (board (gameState s)) (positions (placedEmojis p1))"
    and t2: "tracked (\<lambda>v. v \<in> set cat2) (board (gameState s)) (positions (placedEmojis p2))"
    and l: "length (placedEmojis p1) \<le> 3" "length (placedEmojis p2) \<le> 3"
    by (simp_all add: inv_parts_def)
  have i: "js_includes cat1 = (\<lambda>v. v \<in> set cat1)" "js_includes cat2 = (\<lambda>v. v \<in> set cat2)"
    by (simp_all add: js_includes_def fun_eq_iff)
  have "length (filter (\<lambda>v. v \<in> set cat1) (board (gameState s))) \<le> card (positions (placedEmojis p1))"
    using t1 finite_positions by (rule tracked_count)
  with card_positions[of "placedEmojis p1"] l(1)
  show "cellsOfCategory (gameState s) (player1Category (gameState s)) \<le> 3"
    by (simp add: cellsOfCategory_def c1 i)
  have "length (filter (\<lambda>v. v \<in> set cat2) (board (gameState s))) \<le> card (positions (placedEmojis p2))"
    using t2 finite_positions by (rule tracked_count)
  with card_positions[of "placedEmojis p2"] l(2)
  show "cellsOfCategory (gameState s) (player2Category (gameState s)) \<le> 3"
    by (simp add: cellsOfCategory_def c2 i)
qed
subsection \<open>The fourth placement when the oldest one is on the board\<close>

text \<open>
  When the cell of the mover's oldest queued placement is occupied, it differs from the
  clicked cell, which is empty; then the move clears exactly that cell, writes the drawn
  symbol to the clicked cell, leaves every other cell and the other player as they were,
  and the queue drops its first entry and gains the new one.
\<close>

lemma fourth_placement_player1:
  assumes inv: "app_inv s" and g: "rng_ok g"
      and guard: "gameStarted (gameState s)" "js_get (board (gameState s)) index = Null"
                 "winner (gameState s) = None"
      and ps: "players s = [p1, p2]" and cur: "currentPlayer (gameState s) = 1"
      and full: "length (placedEmojis p1) = 3"
      and on_board: "js_get (board (gameState s)) (fst (hd (placedEmojis p1))) \<noteq> Null"
  shows "\<exists>s' e. handleCellClick index s g = Inr (s', stl g) \<and> e \<in> set (emojis p1)
           \<and> js_get (board (gameState s')) index = e
           \<and> js_get (board (gameState s')) (fst (hd (placedEmojis p1))) = Null
           \<and> (\<forall>k. k \<noteq> index \<and> k \<noteq> fst (hd (placedEmojis p1)) \<longrightarrow>
                  js_get (board (gameState s')) k = js_get (board (gameState s)) k)
           \<and> players s' = [p1\<lparr>placedEmojis := tl (placedEmojis p1) @ [(index, e)]\<rparr>, p2]"
proof -
  let ?gs = "gameState s" and ?q = "placedEmojis p1"
  from inv ps obtain cat1 cat2 where ip: "inv_parts ?gs p1 p2 cat1 cat2"
    by (auto simp: app_inv_def)
  from ip guard(1) have ids: "pid p1 = 1" "pid p2 = 2"
    and c1: "lookupCategory (player1Category ?gs) = Some cat1"
    and c2: "lookupCategory (player2Category ?gs) = Some cat2"
    and em: "set (emojis p1) = set cat1"
    and len: "length (board ?gs) = 9"
    and q1: "\<forall>k \<in> positions ?q. 0 \<le> k \<and> k < 9"
    by (simp_all add: inv_parts_def)
  let ?e = "js_get (emojis p1) \<lfloor>double_mult (shd g) (real (length (emojis p1)))\<rfloor>"
  let ?nb = "evict ?q index ?e (js_set (board ?gs) index ?e)"
  let ?p1 = "p1\<lparr>placedEmojis := enqueue ?q index ?e\<rparr>"
  have ne: "emojis p1 \<noteq> []" using em category_nonempty[OF c1] by auto
  then have "0 < length (emojis p1)" by simp
  from floor_unit[OF rng_ok_shd[OF g] this]
  have e: "?e \<in> set (emojis p1)" by (intro js_get_mem) simp_all
  have draw: "getRandomEmoji (players s) (currentPlayer ?gs) g = (?e, stl g)"
    using ids ne by (simp add: ps cur getRandomEmoji_first)
  have upd: "updatePlayers (currentPlayer ?gs) index ?e (players s) (js_set (board ?gs) index ?e)
               = ([?p1, p2], ?nb)"
    unfolding ps cur by (rule updatePlayers_first) (simp_all add: ids)
  from checkWinner_loop_total[OF c1 c2] obtain w l where
    win: "checkWinner ?gs ?nb = Inr (w, l)" unfolding checkWinner_def by blast
  from handleCellClick_accept[OF guard draw upd win]
  obtain gs' sc where h: "handleCellClick index s g =
      Inr (\<lparr>gameState = gs', players = [?p1, p2], scores = sc\<rparr>, stl g)"
    and b: "board gs' = ?nb" by simp
  from full obtain x xs where q: "?q = x # xs" by (cases ?q) auto
  have enq: "enqueue ?q index ?e = tl ?q @ [(index, ?e)]"
    using full q by (simp add: enqueue_def)
  from js_get_Null_range[OF guard(2)] len have i: "0 \<le> index" "index < int (length (board ?gs))"
    by simp_all
  from q1 len have r: "\<forall>k \<in> positions ?q. 0 \<le> k \<and> k < int (length (board ?gs))" by simp
  have nonempty: "?q \<noteq> []" using q by simp
  have cells: "\<forall>k. js_get ?nb k =
                  (if k = fst (hd ?q) then Null
                   else if k = index then ?e else js_get (board ?gs) k)"
    by (simp add: js_get_move[OF i r] full hd_append nonempty)
  have other: "fst (hd ?q) \<noteq> index" using on_board guard(2) by auto
  from cells other have "js_get ?nb index = ?e" "js_get ?nb (fst (hd ?q)) = Null"
    "\<forall>k. k \<noteq> index \<and> k \<noteq> fst (hd ?q) \<longrightarrow> js_get ?nb k = js_get (board ?gs) k"
    by simp_all
  with h b e enq show ?thesis by auto
qed

lemma fourth_placement_player2:
  assumes inv: "app_inv s" and g: "rng_ok g"
      and guard: "gameStarted (gameState s)" "js_get (board (gameState s)) index = Null"
                 "winner (gameState s) = None"
      and ps: "players s = [p1, p2]" and cur: "currentPlayer (gameState s) = 2"
      and full: "length (placedEmojis p2) = 3"
      and on_board: "js_get (board (gameState s)) (fst (hd (placedEmojis p2))) \<noteq> Null"
  shows "\<exists>s' e. handleCellClick index s g = Inr (s', stl g) \<and> e \<in> set (emojis p2)
           \<and> js_get (board (gameState s')) index = e
           \<and> js_get (board (gameState s')) (fst (hd (placedEmojis p2))) = Null
           \<and> (\<forall>k. k \<noteq> index \<and> k \<noteq> fst (hd (placedEmojis p2)) \<longrightarrow>
                  js_get (board (gameState s')) k = js_get (board (gameState s)) k)
           \<and> players s' = [p1, p2\<lparr>placedEmojis := tl (placedEmojis p2) @ [(index, e)]\<rparr>]"
proof -
  let ?gs = "gameState s" and ?q = "placedEmojis p2"
  from inv ps obtain cat1 cat2 where ip: "inv_parts ?gs p1 p2 cat1 cat2"
    by (auto simp: app_inv_def)
  from ip guard(1) have ids: "pid p1 = 1" "pid p2 = 2"
    and c1: "lookupCategory (player1Category ?gs) = Some cat1"
    and c2: "lookupCategory (player2Category ?gs) = Some cat2"
    and em: "set (emojis p2) = set cat2"
    and len: "length (board ?gs) = 9"
    and q1: "\<forall>k \<in> positions ?q. 0 \<le> k \<and> k < 9"
    by (simp_all add: inv_parts_def)
  let ?e = "js_get (emojis p2) \<lfloor>double_mult (shd g) (real (length (emojis p2)))\<rfloor>"
  let ?nb = "evict ?q index ?e (js_set (board ?gs) index ?e)"
  let ?p2 = "p2\<lparr>placedEmojis := enqueue ?q index ?e\<rparr>"
  have ne: "emojis p2 \<noteq> []" using em category_nonempty[OF c2] by auto
  then have "0 < length (emojis p2)" by simp
  from floor_unit[OF rng_ok_shd[OF g] this]
  have e: "?e \<in> set (emojis p2)" by (intro js_get_mem) simp_all
  have draw: "getRandomEmoji (players s) (currentPlayer ?gs) g = (?e, stl g)"
    using ids ne by (simp add: ps cur getRandomEmoji_second)
  have upd: "updatePlayers (currentPlayer ?gs) index ?e (players s) (js_set (board ?gs) index ?e)
               = ([p1, ?p2], ?nb)"
    unfolding ps cur by (rule updatePlayers_second) (simp_all add: ids)
  from checkWinner_loop_total[OF c1 c2] obtain w l where
    win: "checkWinner ?gs ?nb = Inr (w, l)" unfolding checkWinner_def by blast
  from handleCellClick_accept[OF guard draw upd win]
  obtain gs' sc where h: "handleCellClick index s g =
      Inr (\<lparr>gameState = gs', players = [p1, ?p2], scores = sc\<rparr>, stl g)"
    and b: "board gs' = ?nb" by simp
  from full obtain x xs where q: "?q = x # xs" by (cases ?q) auto
  have enq: "enqueue ?q index ?e = tl ?q @ [(index, ?e)]"
    using full q by (simp add: enqueue_def)
  from js_get_Null_range[OF guard(2)] len have i: "0 \<le> index" "index < int (length (board ?gs))"
    by simp_all
  from q1 len have r: "\<forall>k \<in> positions ?q. 0 \<le> k \<and> k < int (length (board ?gs))" by simp
  have nonempty: "?q \<noteq> []" using q by simp
  have cells: "\<forall>k. js_get ?nb k =
                  (if k = fst (hd ?q) then Null
                   else if k = index then ?e else js_get (board ?gs) k)"
    by (simp add: js_get_move[OF i r] full hd_append nonempty)
  have other: "fst (hd ?q) \<noteq> index" using on_board guard(2) by auto
  from cells other have "js_get ?nb index = ?e" "js_get ?nb (fst (hd ?q)) = Null"
    "\<forall>k. k \<noteq> index \<and> k \<noteq> fst (hd ?q) \<longrightarrow> js_get ?nb k = js_get (board ?gs) k"
    by simp_all
  with h b e enq show ?thesis by auto
qed

section \<open>The claims\<close>

text \<open>
  C10.  The symbol draw \<open>getRandomEmoji\<close> is total.  For a random number that is a
  binary64 value in \<open>[0, 1)\<close>: when no player has the id, or the player's emoji list is
  empty, the result is the placeholder; otherwise it is the element of the player's emoji
  list at an index inside the list, never an out-of-bounds read, the index being the floor
  of the product as the number arithmetic rounds it.  The placeholder is in no category's
  list, so it can never pass the membership test of the win evaluation.
\<close>

theorem getRandomEmoji_total:
  assumes "in_unit (shd g)"
  shows "(find (\<lambda>p. pid p = playerId) ps = None \<longrightarrow>
            fst (getRandomEmoji ps playerId g) = placeholder)
       \<and> (\<forall>player. find (\<lambda>p. pid p = playerId) ps = Some player \<longrightarrow>
            (emojis player = [] \<longrightarrow> fst (getRandomEmoji ps playerId g) = placeholder) \<and>
            (emojis player \<noteq> [] \<longrightarrow>
               (\<exists>i < length (emojis player).
                   fst (getRandomEmoji ps playerId g) = emojis player ! i)))
       \<and> (\<forall>k cat. lookupCategory k = Some cat \<longrightarrow> placeholder \<notin> set cat)"
proof (intro conjI allI impI)
  assume "find (\<lambda>p. pid p = playerId) ps = None"
  then show "fst (getRandomEmoji ps playerId g) = placeholder"
    by (simp add: getRandomEmoji_def)
next
  fix player assume "find (\<lambda>p. pid p = playerId) ps = Some player" "emojis player = []"
  then show "fst (getRandomEmoji ps playerId g) = placeholder"
    by (simp add: getRandomEmoji_def)
next
  fix player
  assume f: "find (\<lambda>p. pid p = playerId) ps = Some player" and ne: "emojis player \<noteq> []"
  let ?n = "length (emojis player)"
  let ?i = "\<lfloor>double_mult (shd g) (real ?n)\<rfloor>"
  from ne have "0 < ?n" by simp
  from floor_unit[OF assms this] have b: "0 \<le> ?i" "?i < int ?n" by simp_all
  then have "nat ?i < ?n" by linarith
  moreover have "fst (getRandomEmoji ps playerId g) = emojis player ! nat ?i"
    using f ne b by (simp add: getRandomEmoji_def js_get_def)
  ultimately show "\<exists>i < length (emojis player).
      fst (getRandomEmoji ps playerId g) = emojis player ! i"
    by blast
next
  fix k cat assume "lookupCategory k = Some cat"
  then show "placeholder \<notin> set cat" by (rule placeholder_in_no_category)
qed

theorem getRandomEmoji_total_witness:
  "in_unit (shd (sconst 0))
   \<and> in_unit (shd (seven_tenths ## sconst 0))
   \<and> (\<exists>i < length (emojis (hd (players started))).
         fst (getRandomEmoji (players started) 1 (sconst 0)) = emojis (hd (players started)) ! i)
   \<and> (\<exists>i < length (emojis (hd (players started))).
         fst (getRandomEmoji (players started) 1 (seven_tenths ## sconst 0))
           = emojis (hd (players started)) ! i)
   \<and> fst (getRandomEmoji (players started) 1 (sconst 0)) = phone
   \<and> fst (getRandomEmoji (players started) 1 (seven_tenths ## sconst 0)) = joystick
   \<and> emojis (hd (players started)) ! 7 = joystick
   \<and> fst (getRandomEmoji (players initialApp) 1 (sconst 0)) = placeholder
   \<and> fst (getRandomEmoji (players started) 3 (sconst 0)) = placeholder"
proof -
  have h: "in_unit (shd (sconst 0))" by simp
  have h7: "in_unit (shd (seven_tenths ## sconst 0))" by (simp add: in_unit_seven_tenths)
  have p: "fst (getRandomEmoji (players started) 1 (sconst 0)) = phone"
    by (simp add: getRandomEmoji_def started_def demoPlayers_def js_get_def phone_def)
  have j: "fst (getRandomEmoji (players started) 1 (seven_tenths ## sconst 0)) = joystick"
    "emojis (hd (players started)) ! 7 = joystick"
    by (simp_all add: getRandomEmoji_def started_def demoPlayers_def js_get_def joystick_def
          double_mult_seven_tenths)
  from getRandomEmoji_total[OF h, of 1 "players started"]
       getRandomEmoji_total[OF h7, of 1 "players started"]
       getRandomEmoji_total[OF h, of 1 "players initialApp"]
       getRandomEmoji_total[OF h, of 3 "players started"]
  show ?thesis using h h7 p j
    by (simp add: started_def demoPlayers_def initialApp_def)
qed

text \<open>
  C5.  A call of \<open>handleCellClick\<close> that violates a precondition changes nothing and
  raises nothing: on a nine-cell board, when the game is not started, or a winner is set,
  or the index is outside 0..8, or the cell is occupied, the handler returns with the
  whole state (board, queues, current player, winner, winning line, started flag, scores)
  and the random source as they were.
\<close>

theorem handleCellClick_illegal_noop:
  assumes "length (board (gameState s)) = 9"
      and "\<not> gameStarted (gameState s) \<or> winner (gameState s) \<noteq> None
           \<or> index < 0 \<or> 8 < index \<or> js_get (board (gameState s)) index \<noteq> Null"
  shows "handleCellClick index s g = Inr (s, g)"
proof -
  have "index < 0 \<or> 8 < index \<Longrightarrow> js_get (board (gameState s)) index \<noteq> Null"
    using assms(1) by (auto simp: js_get_def)
  with assms(2) show ?thesis by (intro handleCellClick_reject) blast
qed

theorem handleCellClick_illegal_noop_witness:
  "length (board (gameState initialApp)) = 9 \<and> \<not> gameStarted (gameState initialApp)
   \<and> handleCellClick 4 initialApp (sconst 0) = Inr (initialApp, sconst 0)
   \<and> length (board (gameState wonGame)) = 9 \<and> winner (gameState wonGame) \<noteq> None
   \<and> handleCellClick 5 wonGame (sconst 0) = Inr (wonGame, sconst 0)
   \<and> length (board (gameState midGame)) = 9
   \<and> js_get (board (gameState midGame)) 0 \<noteq> Null
   \<and> handleCellClick 0 midGame (sconst 0) = Inr (midGame, sconst 0)
   \<and> handleCellClick 9 midGame (sconst 0) = Inr (midGame, sconst 0)
   \<and> handleCellClick (- 1) midGame (sconst 0) = Inr (midGame, sconst 0)"
proof -
  have a: "length (board (gameState initialApp)) = 9" "\<not> gameStarted (gameState initialApp)"
    by (simp_all add: initialApp_def initialGameState_def)
  have b: "length (board (gameState wonGame)) = 9" "winner (gameState wonGame) \<noteq> None"
    by (simp_all add: wonGame_def demoGame_def)
  have c: "length (board (gameState midGame)) = 9" "js_get (board (gameState midGame)) 0 \<noteq> Null"
    by (simp_all add: midGame_def demoGame_def js_get_def phone_def)
  show ?thesis
    using a b c
      handleCellClick_illegal_noop[of initialApp 4 "sconst 0"]
      handleCellClick_illegal_noop[of wonGame 5 "sconst 0"]
      handleCellClick_illegal_noop[of midGame 0 "sconst 0"]
      handleCellClick_illegal_noop[of midGame 9 "sconst 0"]
      handleCellClick_illegal_noop[of midGame "- 1" "sconst 0"]
    by simp
qed
text \<open>
  C3, as the code has it.  Every accepted move (the categories being keys of the table)
  returns, stores the result of the win evaluation on the new board in \<open>winner\<close> and
  \<open>winningLine\<close>, and hands the turn to the other player (2 after 1, otherwise 1)
  whether or not the move wins.
\<close>

theorem handleCellClick_turn_always_advances:
  assumes "gameStarted (gameState s)" "js_get (board (gameState s)) index = Null"
          "winner (gameState s) = None"
      and c1: "lookupCategory (player1Category (gameState s)) = Some cat1"
      and c2: "lookupCategory (player2Category (gameState s)) = Some cat2"
  shows "\<exists>s' g'. handleCellClick index s g = Inr (s', g')
       \<and> currentPlayer (gameState s') = (if currentPlayer (gameState s) = 1 then 2 else 1)
       \<and> checkWinner (gameState s) (board (gameState s'))
             = Inr (winner (gameState s'), winningLine (gameState s'))"
proof -
  obtain e g1 where d: "getRandomEmoji (players s) (currentPlayer (gameState s)) g = (e, g1)"
    by (cases "getRandomEmoji (players s) (currentPlayer (gameState s)) g") blast
  obtain ps nb where u: "updatePlayers (currentPlayer (gameState s)) index e (players s)
                           (js_set (board (gameState s)) index e) = (ps, nb)"
    by (cases "updatePlayers (currentPlayer (gameState s)) index e (players s)
                 (js_set (board (gameState s)) index e)") blast
  from checkWinner_loop_total[OF c1 c2] obtain w l where
    win: "checkWinner (gameState s) nb = Inr (w, l)" unfolding checkWinner_def by blast
  let ?s' = "\<lparr>gameState = (gameState s)\<lparr>board := nb,
                    currentPlayer := (if currentPlayer (gameState s) = 1 then 2 else 1),
                    winner := w, winningLine := l\<rparr>,
                 players = ps,
                 scores = (if w \<noteq> None \<and> w \<noteq> Some 0 then
                             \<lparr>player1 = (if w = Some 1 then player1 (scores s) + 1
                                          else player1 (scores s)),
                              player2 = (if w = Some 2 then player2 (scores s) + 1
                                          else player2 (scores s))\<rparr>
                           else scores s)\<rparr>"
  have "handleCellClick index s g = Inr (?s', g1)"
    by (rule handleCellClick_accept[OF assms(1-3) d u win])
  moreover have "currentPlayer (gameState ?s') = (if currentPlayer (gameState s) = 1 then 2 else 1)"
    by simp
  moreover have "checkWinner (gameState s) (board (gameState ?s'))
                   = Inr (winner (gameState ?s'), winningLine (gameState ?s'))"
    using win by simp
  ultimately show ?thesis by blast
qed

theorem handleCellClick_turn_always_advances_witness:
  "gameStarted (gameState midGame) \<and> js_get (board (gameState midGame)) 2 = Null
   \<and> winner (gameState midGame) = None
   \<and> lookupCategory (player1Category (gameState midGame)) = Some (the (lookupCategory ''tech''))
   \<and> lookupCategory (player2Category (gameState midGame)) = Some (the (lookupCategory ''space''))
   \<and> handleCellClick 2 midGame (sconst 0) = Inr (wonGame, sconst 0)
   \<and> currentPlayer (gameState midGame) = 1
   \<and> currentPlayer (gameState wonGame) = 2
   \<and> checkWinner (gameState midGame) (board (gameState wonGame)) = Inr (Some 1, Some [0, 1, 2])"
proof -
  have a: "gameStarted (gameState midGame)" "js_get (board (gameState midGame)) 2 = Null"
    "winner (gameState midGame) = None"
    by (simp_all add: midGame_def demoGame_def js_get_def)
  have c: "lookupCategory (player1Category (gameState midGame)) = Some (the (lookupCategory ''tech''))"
    "lookupCategory (player2Category (gameState midGame)) = Some (the (lookupCategory ''space''))"
    by (simp_all add: midGame_def demoGame_def lookupCategory_def emojiCategories_def)
  from handleCellClick_turn_always_advances[OF a c, of "sconst 0"]
  have "currentPlayer (gameState wonGame) = (if currentPlayer (gameState midGame) = 1 then 2 else 1)
       \<and> checkWinner (gameState midGame) (board (gameState wonGame))
             = Inr (winner (gameState wonGame), winningLine (gameState wonGame))"
    unfolding demo_win by simp
  moreover have "currentPlayer (gameState midGame) = 1" "winner (gameState wonGame) = Some 1"
    "winningLine (gameState wonGame) = Some [0, 1, 2]"
    by (simp_all add: midGame_def wonGame_def demoGame_def)
  ultimately show ?thesis using a c demo_win by simp
qed

text \<open>
  C3 as stated fails: in the game played through, player 1's click on cell 2 wins, and
  the current player afterwards is player 2, not the player who moved.
\<close>

theorem winning_move_advances_turn_counterexample:
  "handleCellClick 2 midGame (sconst 0) = Inr (wonGame, sconst 0)
   \<and> winner (gameState wonGame) = Some 1
   \<and> winningLine (gameState wonGame) = Some [0, 1, 2]
   \<and> currentPlayer (gameState midGame) = 1
   \<and> currentPlayer (gameState wonGame) \<noteq> currentPlayer (gameState midGame)"
  using demo_win by (simp add: midGame_def wonGame_def demoGame_def)

text \<open>
  C2, as the code has it.  \<open>startGame\<close> takes no arguments, checks nothing and cannot
  fail: in every state, also with both players on one category, it gives a started game
  with nine empty cells, player 1 to move, no winner and no winning line, and leaves both
  categories as they were.
\<close>

theorem startGame_never_rejects:
  "gameStarted (gameState (startGame s))
   \<and> board (gameState (startGame s)) = replicate 9 Null
   \<and> currentPlayer (gameState (startGame s)) = 1
   \<and> winner (gameState (startGame s)) = None
   \<and> winningLine (gameState (startGame s)) = None
   \<and> player1Category (gameState (startGame s)) = player1Category (gameState s)
   \<and> player2Category (gameState (startGame s)) = player2Category (gameState s)"
  by (simp add: startGame_def)

text \<open>
  C2 as stated fails: on the setup screen player 1's button for \<open>space\<close> is enabled while
  player 2 holds \<open>space\<close>; after it both players are bound to \<open>space\<close>, the start button
  is enabled, and \<open>startGame\<close> starts the game.
\<close>

theorem startGame_equal_categories_counterexample:
  "enabled initialApp (CategoryButton 1 ''space'')
   \<and> dispatch (CategoryButton 1 ''space'') initialApp (sconst 0) = Inr (sameSetup, sconst 0)
   \<and> player1Category (gameState sameSetup) = player2Category (gameState sameSetup)
   \<and> enabled sameSetup StartButton
   \<and> gameStarted (gameState (startGame sameSetup))
   \<and> player1Category (gameState (startGame sameSetup))
       = player2Category (gameState (startGame sameSetup))"
  by (simp add: sameSetup_def dispatch_def afterRender_def effectDeps_def playersEffect_def
        handleCategoryChange_def startGame_def initialApp_def initialGameState_def
        categoryKeys_def emojiCategories_def)

text \<open>
  C9, as the code has it.  \<open>resetGame\<close> returns to the setup stage with nine empty cells,
  two players with empty queues and empty emoji lists, no winner, no winning line and
  player 1 to move; it keeps both players' categories as they were last selected, and the
  scores; the effect that follows does nothing.
\<close>

theorem resetGame_keeps_categories:
  "\<not> gameStarted (gameState (resetGame s))
   \<and> board (gameState (resetGame s)) = replicate 9 Null
   \<and> currentPlayer (gameState (resetGame s)) = 1
   \<and> winner (gameState (resetGame s)) = None
   \<and> winningLine (gameState (resetGame s)) = None
   \<and> map pid (players (resetGame s)) = [1, 2]
   \<and> map placedEmojis (players (resetGame s)) = [[], []]
   \<and> map emojis (players (resetGame s)) = [[], []]
   \<and> player1Category (gameState (resetGame s)) = player1Category (gameState s)
   \<and> player2Category (gameState (resetGame s)) = player2Category (gameState s)
   \<and> map category (players (resetGame s))
       = [player1Category (gameState s), player2Category (gameState s)]
   \<and> scores (resetGame s) = scores s
   \<and> afterRender s (resetGame s) g = Inr (resetGame s, g)"
  by (simp add: resetGame_def initialGameState_def afterRender_def playersEffect_def)

text \<open>
  C9 as stated fails: after player 1 chose \<open>animals\<close> and the game was started, a reset
  leaves player 1 on \<open>animals\<close>, which is not the default \<open>tech\<close>.
\<close>

theorem resetGame_defaults_counterexample:
  "player1Category initialGameState = ''tech''
   \<and> player1Category
        (gameState (resetGame (startGame (handleCategoryChange 1 ''animals'' initialApp))))
       = ''animals''"
  by (simp add: resetGame_def startGame_def handleCategoryChange_def initialApp_def
        initialGameState_def)




text \<open>
  C8.  \<open>checkWinner\<close> goes through the eight combinations in the order rows 0-1-2, 3-4-5,
  6-7-8, columns 0-3-6, 1-4-7, 2-5-8, diagonals 0-4-8, 2-4-6, and returns the first one
  that the loop declares won, with its winner: it reports winner \<open>w\<close> with line \<open>combo\<close>
  exactly when \<open>combo\<close> is won by \<open>w\<close> and every combination before it in that order is
  not won.  The result carries one line, never several.
\<close>

theorem checkWinner_first_in_order:
  "winningCombinations =
     [[0, 1, 2], [3, 4, 5], [6, 7, 8], [0, 3, 6], [1, 4, 7], [2, 5, 8], [0, 4, 8], [2, 4, 6]]
   \<and> (checkWinner gs brd = Inr (Some w, Some combo) \<longleftrightarrow>
        (\<exists>pre post. winningCombinations = pre @ combo # post
                    \<and> (\<forall>c \<in> set pre. checkCombo gs brd c = Inr None)
                    \<and> checkCombo gs brd combo = Inr (Some w)))"
  unfolding checkWinner_def
  by (intro conjI checkWinner_loop_first) (simp add: winningCombinations_def)

theorem checkWinner_first_in_order_witness:
  "winningCombinations = [[0, 1, 2], [3, 4, 5], [6, 7, 8]] @ [0, 3, 6] # [[1, 4, 7], [2, 5, 8], [0, 4, 8], [2, 4, 6]]
   \<and> checkCombo (gameState started) crossBoard [0, 1, 2] = Inr None
   \<and> checkCombo (gameState started) crossBoard [3, 4, 5] = Inr None
   \<and> checkCombo (gameState started) crossBoard [6, 7, 8] = Inr None
   \<and> checkCombo (gameState started) crossBoard [0, 3, 6] = Inr (Some 1)
   \<and> checkCombo (gameState started) crossBoard [0, 4, 8] = Inr (Some 1)
   \<and> checkWinner (gameState started) crossBoard = Inr (Some 1, Some [0, 3, 6])"
proof -
  have l: "winningCombinations = [[0, 1, 2], [3, 4, 5], [6, 7, 8]] @ [0, 3, 6] # [[1, 4, 7], [2, 5, 8], [0, 4, 8], [2, 4, 6]]"
    by (simp add: winningCombinations_def)
  have p: "\<forall>c \<in> set [[0, 1, 2], [3, 4, 5], [6, 7, 8]]. checkCombo (gameState started) crossBoard c = Inr None"
    by (simp add: checkCombo_def crossBoard_def js_get_def)
  have q: "checkCombo (gameState started) crossBoard [0, 3, 6] = Inr (Some 1)"
    "checkCombo (gameState started) crossBoard [0, 4, 8] = Inr (Some 1)"
    by (simp_all add: checkCombo_def crossBoard_def js_get_def js_includes_def phone_def
          started_def demoGame_def lookupCategory_def emojiCategories_def)
  from l p q(1) have "\<exists>pre post. winningCombinations = pre @ [0, 3, 6] # post
                    \<and> (\<forall>c \<in> set pre. checkCombo (gameState started) crossBoard c = Inr None)
                    \<and> checkCombo (gameState started) crossBoard [0, 3, 6] = Inr (Some 1)"
    by blast
  with checkWinner_first_in_order[of "gameState started" crossBoard 1 "[0, 3, 6]"]
  have "checkWinner (gameState started) crossBoard = Inr (Some 1, Some [0, 3, 6])" by blast
  with l p q show ?thesis by simp
qed
text \<open>
  C4.  In every state the component reaches, by any sequence of its controls from the
  first render and so in particular from a started game by any sequence of cell clicks,
  each player's placement queue has at most three entries; and when the two players are
  bound to different categories, so that a symbol tells whose it is, at most three cells
  of the board hold a symbol of either player.  The run never raises.
\<close>

theorem at_most_three_per_player:
  assumes "rng_ok g"
  shows "\<exists>s g'. run evs initialApp g = Inr (s, g')
           \<and> (\<forall>p \<in> set (players s). length (placedEmojis p) \<le> 3)
           \<and> (player1Category (gameState s) \<noteq> player2Category (gameState s) \<longrightarrow>
                cellsOfCategory (gameState s) (player1Category (gameState s)) \<le> 3
              \<and> cellsOfCategory (gameState s) (player2Category (gameState s)) \<le> 3)"
proof -
  from run_inv[OF app_inv_initial assms, of evs] obtain s g' where
    r: "run evs initialApp g = Inr (s, g')" and i: "app_inv s" by blast
  from r app_inv_queues[OF i] app_inv_cells[OF i] show ?thesis by blast
qed

theorem at_most_three_per_player_witness:
  "rng_ok (sconst 0)
   \<and> run [StartButton, Cell 0, Cell 3, Cell 1, Cell 4, Cell 2] initialApp (sconst 0)
       = Inr (wonGame, sconst 0)
   \<and> list_all (\<lambda>p. length (placedEmojis p) \<le> 3) (players wonGame)
   \<and> player1Category (gameState wonGame) \<noteq> player2Category (gameState wonGame)
   \<and> cellsOfCategory (gameState wonGame) (player1Category (gameState wonGame)) \<le> 3
   \<and> cellsOfCategory (gameState wonGame) (player2Category (gameState wonGame)) \<le> 3
   \<and> cellsOfCategory (gameState wonGame) ''tech'' = 3"
proof -
  from at_most_three_per_player[OF rng_ok_sconst,
         of "[StartButton, Cell 0, Cell 3, Cell 1, Cell 4, Cell 2]"]
  have a: "(\<forall>p \<in> set (players wonGame). length (placedEmojis p) \<le> 3)
       \<and> (player1Category (gameState wonGame) \<noteq> player2Category (gameState wonGame) \<longrightarrow>
                cellsOfCategory (gameState wonGame) (player1Category (gameState wonGame)) \<le> 3
              \<and> cellsOfCategory (gameState wonGame) (player2Category (gameState wonGame)) \<le> 3)"
    unfolding demo_run_won by simp
  have n: "player1Category (gameState wonGame) \<noteq> player2Category (gameState wonGame)"
    by (simp add: wonGame_def demoGame_def)
  have t: "cellsOfCategory (gameState wonGame) ''tech'' = 3"
    by (simp add: cellsOfCategory_def wonGame_def demoGame_def phone_def saucer_def
          js_includes_def lookupCategory_def emojiCategories_def)
  from a n t rng_ok_sconst demo_run_won show ?thesis by (simp add: list_all_iff)
qed

text \<open>
  C7.  In every state the component reaches, at most six of the nine cells are occupied;
  so if all nine cells were occupied a winner would be set: a full board without a
  winner, a draw, is unreachable.  The run never raises.
\<close>

theorem full_board_unreachable:
  assumes "rng_ok g"
  shows "\<exists>s g'. run evs initialApp g = Inr (s, g')
           \<and> length (board (gameState s)) = 9
           \<and> length (filter (\<lambda>v. v \<noteq> Null) (board (gameState s))) \<le> 6
           \<and> ((\<forall>i. 0 \<le> i \<and> i < 9 \<longrightarrow> js_get (board (gameState s)) i \<noteq> Null)
                \<longrightarrow> winner (gameState s) \<noteq> None)"
proof -
  from run_inv[OF app_inv_initial assms, of evs] obtain s g' where
    r: "run evs initialApp g = Inr (s, g')" and i: "app_inv s" by blast
  note o = app_inv_occupied[OF i]
  have "\<not> (\<forall>i. 0 \<le> i \<and> i < 9 \<longrightarrow> js_get (board (gameState s)) i \<noteq> Null)"
  proof
    assume "\<forall>i. 0 \<le> i \<and> i < 9 \<longrightarrow> js_get (board (gameState s)) i \<noteq> Null"
    from full_board_count[OF o(1) this] o(2) show False by simp
  qed
  with r o show ?thesis by blast
qed

theorem full_board_unreachable_witness:
  "rng_ok (sconst 0)
   \<and> run [StartButton, Cell 0, Cell 3, Cell 1, Cell 4, Cell 2] initialApp (sconst 0)
       = Inr (wonGame, sconst 0)
   \<and> length (board (gameState wonGame)) = 9
   \<and> length (filter (\<lambda>v. v \<noteq> Null) (board (gameState wonGame))) \<le> 6
   \<and> length (filter (\<lambda>v. v \<noteq> Null) (board (gameState wonGame))) = 5
   \<and> js_get (board (gameState wonGame)) 5 = Null
   \<and> winner (gameState wonGame) \<noteq> None"
proof -
  from full_board_unreachable[OF rng_ok_sconst,
         of "[StartButton, Cell 0, Cell 3, Cell 1, Cell 4, Cell 2]"]
  have a: "length (board (gameState wonGame)) = 9
   \<and> length (filter (\<lambda>v. v \<noteq> Null) (board (gameState wonGame))) \<le> 6
   \<and> ((\<forall>i. 0 \<le> i \<and> i < 9 \<longrightarrow> js_get (board (gameState wonGame)) i \<noteq> Null)
        \<longrightarrow> winner (gameState wonGame) \<noteq> None)"
    unfolding demo_run_won by simp
  have t: "length (filter (\<lambda>v. v \<noteq> Null) (board (gameState wonGame))) = 5"
    "js_get (board (gameState wonGame)) 5 = Null"
    "winner (gameState wonGame) \<noteq> None"
    by (simp_all add: wonGame_def demoGame_def phone_def saucer_def js_get_def)
  from a t rng_ok_sconst demo_run_won show ?thesis by blast
qed

text \<open>
  C1 at the input where the code departs from it.  Player 1 wins with the top row and
  ``Play Again'' is pressed: the board is cleared, but the effect does not run (none of
  its dependencies changed), so player 1's queue still holds the three placements of the
  game before.  Player 1 then clicks the empty cell 0, a legal move that makes a fourth
  queued placement.  The symbol is written to cell 0, and the eviction of the oldest
  queue entry, whose position is 0 as well, clears the cell again: the clicked cell is
  empty afterwards and the board holds no symbol at all.  (Where the oldest queued
  placement is still on the board the move does what C1 says: \<open>fourth_placement_player1\<close>
  and \<open>fourth_placement_player2\<close>.)
\<close>

theorem rematch_click_erases_new_symbol:
  "run [StartButton, Cell 0, Cell 3, Cell 1, Cell 4, Cell 2, PlayAgainButton] initialApp (sconst 0)
     = Inr (rematch, sconst 0)
   \<and> gameStarted (gameState rematch) \<and> winner (gameState rematch) = None
   \<and> js_get (board (gameState rematch)) 0 = Null
   \<and> currentPlayer (gameState rematch) = 1
   \<and> map (\<lambda>p. length (placedEmojis p)) (players rematch) = [3, 2]
   \<and> fst (getRandomEmoji (players rematch) 1 (sconst 0)) = phone
   \<and> handleCellClick 0 rematch (sconst 0) = Inr (rematchMove, sconst 0)
   \<and> js_get (board (gameState rematchMove)) 0 = Null
   \<and> board (gameState rematchMove) = replicate 9 Null
   \<and> map placedEmojis (players rematchMove)
       = [[(1, phone), (2, phone), (0, phone)], [(3, saucer), (4, saucer)]]"
  using demo_run_rematch demo_rematch_move
  by (simp add: rematch_def rematchMove_def demoGame_def demoPlayers_def js_get_def
        getRandomEmoji_def phone_def replicate_nine)

theorem rematch_click_erases_new_symbol_witness:
  "js_get (board (gameState rematch)) 0 = Null
   \<and> fst (getRandomEmoji (players rematch) 1 (sconst 0)) = phone
   \<and> handleCellClick 0 rematch (sconst 0) = Inr (rematchMove, sconst 0)
   \<and> js_get (board (gameState rematchMove)) 0 \<noteq> phone"
proof -
  have "js_get (board (gameState rematch)) 0 = Null
   \<and> fst (getRandomEmoji (players rematch) 1 (sconst 0)) = phone
   \<and> handleCellClick 0 rematch (sconst 0) = Inr (rematchMove, sconst 0)
   \<and> js_get (board (gameState rematchMove)) 0 = Null"
    using rematch_click_erases_new_symbol by (elim conjE) (intro conjI; assumption)
  then show ?thesis by (simp add: phone_def)
qed

end
